theory Spec2Isabelle
  imports Complex_Main "HOL-Library.Sublist" "HOL-Library.AList"
begin

section \<open>Python values and strings\<close>

text \<open>
  The repository is dynamically typed Python working on the result of \<^verbatim>\<open>json.loads\<close>
  and on the dictionaries returned by the vector store, so values are modelled by one
  datatype. A Python \<^verbatim>\<open>str\<close> is modelled as a \<^typ>\<open>string\<close> whose characters are
  the code points below 256; a \<^verbatim>\<open>dict\<close> with string keys is an association list
  (insertion order kept, lookup by \<^const>\<open>map_of\<close>).
  A float is not-a-number, an infinity (\<open>True\<close> is the positive one), the negative
  zero or a finite rational; only its truth value (non-zero) is used by the code.
\<close>

datatype pyfloat = NaN | Inf bool | NegZero | Fin rat

datatype pyval =
    PNone
  | PBool bool
  | PInt int
  | PFloat pyfloat
  | PStr string
  | PList "pyval list"
  | PDict "(string \<times> pyval) list"

type_synonym pydict = "(string \<times> pyval) list"

datatype error =
    TypeError
  | AttributeError
  | KeyError
  | IndexError
  | ValueError string
  | JSONDecodeError
  | EOFError

abbreviation NL :: char where "NL \<equiv> CHR 0x0A"
abbreviation CR :: char where "CR \<equiv> CHR 0x0D"

text \<open>Truth value testing, as \<^verbatim>\<open>if x\<close>, \<^verbatim>\<open>x or y\<close> and \<^verbatim>\<open>not x\<close> do it.\<close>

fun truthy :: "pyval \<Rightarrow> bool" where
  "truthy PNone = False"
| "truthy (PBool b) = b"
| "truthy (PInt n) = (n \<noteq> 0)"
| "truthy (PFloat f) = (case f of Fin r \<Rightarrow> r \<noteq> 0 | NegZero \<Rightarrow> False | _ \<Rightarrow> True)"
| "truthy (PStr s) = (s \<noteq> [])"
| "truthy (PList xs) = (xs \<noteq> [])"
| "truthy (PDict d) = (d \<noteq> [])"

text \<open>\<^verbatim>\<open>x or y\<close>\<close>

definition py_or :: "pyval \<Rightarrow> pyval \<Rightarrow> pyval" where
  "py_or x y = (if truthy x then x else y)"

text \<open>\<^verbatim>\<open>d.get(k)\<close> and \<^verbatim>\<open>d.get(k, default)\<close>\<close>

definition dict_get :: "pydict \<Rightarrow> string \<Rightarrow> pyval" where
  "dict_get d k = (case map_of d k of None \<Rightarrow> PNone | Some v \<Rightarrow> v)"

definition dict_get_default :: "pydict \<Rightarrow> string \<Rightarrow> pyval \<Rightarrow> pyval" where
  "dict_get_default d k dflt = (case map_of d k of None \<Rightarrow> dflt | Some v \<Rightarrow> v)"

text \<open>
  Iteration (\<^verbatim>\<open>for x in v\<close>): a list yields its elements, a string its characters as
  one-character strings, a dictionary its keys; anything else raises \<^verbatim>\<open>TypeError\<close>.
\<close>

fun py_iter :: "pyval \<Rightarrow> error + pyval list" where
  "py_iter (PList xs) = Inr xs"
| "py_iter (PStr s) = Inr (map (\<lambda>c. PStr [c]) s)"
| "py_iter (PDict d) = Inr (map (\<lambda>kv. PStr (fst kv)) d)"
| "py_iter v = Inl TypeError"

text \<open>
  Formatting inside an f-string: a string is inserted as it is; the text of any other
  value is what Python's \<^verbatim>\<open>str\<close> gives, taken as the parameter \<open>rend\<close>.
\<close>

definition fmt :: "(pyval \<Rightarrow> string) \<Rightarrow> pyval \<Rightarrow> string" where
  "fmt rend v = (case v of PStr s \<Rightarrow> s | _ \<Rightarrow> rend v)"

text \<open>
  White space as \<^verbatim>\<open>str.strip\<close>, \<^verbatim>\<open>str.isspace\<close> and the pattern \<^verbatim>\<open>\s\<close> see it, on
  the code points below 256: 9 to 13, 28 to 32, 133 and 160.
\<close>

definition is_space :: "char \<Rightarrow> bool" where
  "is_space c = (let n = (of_char c :: nat) in
     (9 \<le> n \<and> n \<le> 13) \<or> (28 \<le> n \<and> n \<le> 32) \<or> n = 133 \<or> n = 160)"

definition lstrip :: "string \<Rightarrow> string" where
  "lstrip s = dropWhile is_space s"

definition rstrip :: "string \<Rightarrow> string" where
  "rstrip s = rev (dropWhile is_space (rev s))"

definition strip :: "string \<Rightarrow> string" where
  "strip s = rstrip (lstrip s)"

text \<open>\<^verbatim>\<open>sep.join(parts)\<close>\<close>

fun join :: "string \<Rightarrow> string list \<Rightarrow> string" where
  "join sep [] = []"
| "join sep [x] = x"
| "join sep (x # y # ys) = x @ sep @ join sep (y # ys)"

section \<open>Ingestion: document text and metadata (chromadb_save.py)\<close>

text \<open>
  One section of the document with a header line and one bullet per element:
  \<^verbatim>\<open>xs = card.get(k) or []; if xs: parts.append(header); parts.extend([f"- {x}" for x in xs])\<close>
\<close>

definition bullet :: "(pyval \<Rightarrow> string) \<Rightarrow> pyval \<Rightarrow> string" where
  "bullet rend x = ''- '' @ fmt rend x"

definition extend_section ::
  "(pyval \<Rightarrow> string) \<Rightarrow> pydict \<Rightarrow> string \<Rightarrow> string \<Rightarrow> string list \<Rightarrow> error + string list" where
  "extend_section rend crd k header parts =
     (let xs = py_or (dict_get crd k) (PList []) in
      if truthy xs then
        (case py_iter xs of
           Inl e \<Rightarrow> Inl e
         | Inr ys \<Rightarrow> Inr ((parts @ [header]) @ map (bullet rend) ys))
      else Inr parts)"

text \<open>\<^verbatim>\<open>if card.get(k): parts.append(f"Label: {card[k]}")\<close>\<close>

definition append_field ::
  "(pyval \<Rightarrow> string) \<Rightarrow> pydict \<Rightarrow> string \<Rightarrow> string \<Rightarrow> string list \<Rightarrow> string list" where
  "append_field rend crd k label parts =
     (if truthy (dict_get crd k) then parts @ [label @ fmt rend (dict_get crd k)] else parts)"

definition build_document :: "(pyval \<Rightarrow> string) \<Rightarrow> pydict \<Rightarrow> error + string" where
  "build_document rend crd =
     (let parts = [];
          parts = append_field rend crd ''title'' ''Title: '' parts;
          parts = append_field rend crd ''content'' ''Content: '' parts
      in case extend_section rend crd ''items'' ''Checklist Items:'' parts of
           Inl e \<Rightarrow> Inl e
         | Inr parts \<Rightarrow>
      (case extend_section rend crd ''symptoms'' ''Symptoms:'' parts of
           Inl e \<Rightarrow> Inl e
         | Inr parts \<Rightarrow>
      (let parts = append_field rend crd ''root_cause'' ''Root cause: '' parts
       in case extend_section rend crd ''fix'' ''Fix:'' parts of
           Inl e \<Rightarrow> Inl e
         | Inr parts \<Rightarrow> Inr (''passage: '' @ strip (join [NL] parts)))))"

text \<open>
  \<^verbatim>\<open>src.get(k, "")\<close> on the value bound to \<^verbatim>\<open>src\<close>: only a dictionary has the method.
\<close>

definition attr_get :: "pyval \<Rightarrow> string \<Rightarrow> pyval \<Rightarrow> error + pyval" where
  "attr_get v k dflt = (case v of PDict d \<Rightarrow> Inr (dict_get_default d k dflt) | _ \<Rightarrow> Inl AttributeError)"

text \<open>\<^verbatim>\<open>isinstance(t, str)\<close>, and the text of a value that is a string.\<close>

fun is_str :: "pyval \<Rightarrow> bool" where
  "is_str (PStr s) = True"
| "is_str v = False"

fun str_of :: "pyval \<Rightarrow> string" where
  "str_of (PStr s) = s"
| "str_of v = []"

definition build_metadata :: "pydict \<Rightarrow> error + pydict" where
  "build_metadata crd =
     (let src = py_or (dict_get crd ''source'') (PDict []);
          tags = py_or (dict_get crd ''tags'') (PList [])
      in case py_iter tags of
           Inl e \<Rightarrow> Inl e
         | Inr ts \<Rightarrow>
      (let tags_str = join '','' (map str_of (filter is_str ts))
       in case attr_get src ''name'' (PStr []) of
           Inl e \<Rightarrow> Inl e
         | Inr source_name \<Rightarrow>
      (case attr_get src ''url'' (PStr []) of
           Inl e \<Rightarrow> Inl e
         | Inr source_url \<Rightarrow>
         Inr [(''type'', dict_get_default crd ''type'' (PStr [])),
              (''category'', dict_get_default crd ''category'' (PStr [])),
              (''pipeline_step'', dict_get_default crd ''pipeline_step'' (PStr [])),
              (''source_name'', source_name),
              (''source_url'', source_url),
              (''tags'', PStr tags_str)])))"

subsection \<open>The document layout in the words of the specification\<close>

text \<open>
  The non-empty fields in the fixed order Title, Content, Checklist Items, Symptoms,
  Root cause, Fix; a list field gives its header and one bullet line per element, an
  absent or empty field gives no line.
\<close>

definition field_line :: "(pyval \<Rightarrow> string) \<Rightarrow> pydict \<Rightarrow> string \<Rightarrow> string \<Rightarrow> string list" where
  "field_line rend crd k label =
     (case map_of crd k of
        None \<Rightarrow> []
      | Some v \<Rightarrow> if truthy v then [label @ '': '' @ fmt rend v] else [])"

definition list_lines :: "(pyval \<Rightarrow> string) \<Rightarrow> pydict \<Rightarrow> string \<Rightarrow> string \<Rightarrow> string list" where
  "list_lines rend crd k header =
     (case map_of crd k of
        Some (PList (x # xs)) \<Rightarrow> header # map (\<lambda>y. ''- '' @ fmt rend y) (x # xs)
      | _ \<Rightarrow> [])"

definition document_lines :: "(pyval \<Rightarrow> string) \<Rightarrow> pydict \<Rightarrow> string list" where
  "document_lines rend crd =
     field_line rend crd ''title'' ''Title''
     @ field_line rend crd ''content'' ''Content''
     @ list_lines rend crd ''items'' ''Checklist Items:''
     @ list_lines rend crd ''symptoms'' ''Symptoms:''
     @ field_line rend crd ''root_cause'' ''Root cause''
     @ list_lines rend crd ''fix'' ''Fix:''"

definition format_document :: "(pyval \<Rightarrow> string) \<Rightarrow> pydict \<Rightarrow> string" where
  "format_document rend crd = ''passage: '' @ strip (join [NL] (document_lines rend crd))"

definition list_field :: "pydict \<Rightarrow> string \<Rightarrow> bool" where
  "list_field crd k =
     (case map_of crd k of
        None \<Rightarrow> True
      | Some (PList xs) \<Rightarrow> True
      | Some v \<Rightarrow> \<not> truthy v)"

definition advice_card_lists :: "pydict \<Rightarrow> bool" where
  "advice_card_lists crd \<longleftrightarrow>
     list_field crd ''items'' \<and> list_field crd ''symptoms'' \<and> list_field crd ''fix''"

definition document_fields :: "string list" where
  "document_fields = [''title'', ''content'', ''items'', ''symptoms'', ''root_cause'', ''fix'']"

definition same_fields :: "pydict \<Rightarrow> pydict \<Rightarrow> bool" where
  "same_fields crd crd' \<longleftrightarrow> list_all (\<lambda>k. map_of crd k = map_of crd' k) document_fields"


subsection \<open>The inputs on which the metadata projection is defined\<close>

text \<open>
  The source descriptor is absent, empty or a mapping, and the tags are absent, empty or
  a list: the shape of an advice card.
\<close>

definition mapping_field :: "pydict \<Rightarrow> string \<Rightarrow> bool" where
  "mapping_field crd k =
     (case map_of crd k of
        None \<Rightarrow> True
      | Some (PDict d) \<Rightarrow> True
      | Some v \<Rightarrow> \<not> truthy v)"

definition metadata_input :: "pydict \<Rightarrow> bool" where
  "metadata_input crd \<longleftrightarrow> mapping_field crd ''source'' \<and> list_field crd ''tags''"

definition source_fields :: "pydict \<Rightarrow> pydict" where
  "source_fields crd = (case map_of crd ''source'' of Some (PDict d) \<Rightarrow> d | _ \<Rightarrow> [])"

definition tag_entries :: "pydict \<Rightarrow> pyval list" where
  "tag_entries crd = (case map_of crd ''tags'' of Some (PList ts) \<Rightarrow> ts | _ \<Rightarrow> [])"

definition metadata_keys :: "string list" where
  "metadata_keys = [''type'', ''category'', ''pipeline_step'', ''source_name'', ''source_url'', ''tags'']"

definition or_empty :: "pyval option \<Rightarrow> pyval" where
  "or_empty x = (case x of None \<Rightarrow> PStr [] | Some v \<Rightarrow> v)"


subsection \<open>The ingestion loop\<close>

text \<open>
  The loop at module level reads the file line by line. \<^verbatim>\<open>json.loads\<close> is the parameter
  \<open>loads\<close>, with \<open>None\<close> for a line it cannot parse; \<^verbatim>\<open>e5_embed\<close> is the parameter of the same name.
  The store is the list of the calls to \<^verbatim>\<open>collection.add\<close> made so far, each with its
  four parallel arguments. An exception ends the run: the result then holds the error
  and what the store had received when it was raised.
\<close>

record 'v batch =
  batch_ids :: "pyval list"
  batch_documents :: "string list"
  batch_metadatas :: "pydict list"
  batch_embeddings :: "'v list"

record 'v ingest_state =
  pending_ids :: "pyval list"
  pending_docs :: "string list"
  pending_metas :: "pydict list"
  added :: "'v batch list"

definition batch_size :: nat where
  "batch_size = 200"

text \<open>\<^verbatim>\<open>card["id"]\<close>: only a dictionary can be indexed by a string.\<close>

definition item :: "pyval \<Rightarrow> string \<Rightarrow> error + pyval" where
  "item v k =
     (case v of
        PDict d \<Rightarrow> (case map_of d k of None \<Rightarrow> Inl KeyError | Some x \<Rightarrow> Inr x)
      | _ \<Rightarrow> Inl TypeError)"

text \<open>
  \<^verbatim>\<open>embs = e5_embed(docs); collection.add(ids=ids, documents=docs, metadatas=metas, embeddings=embs); ids, docs, metas = [], [], []\<close>
\<close>

definition flush :: "(string list \<Rightarrow> 'v list) \<Rightarrow> 'v ingest_state \<Rightarrow> 'v ingest_state" where
  "flush e5_embed st =
     (let embs = e5_embed (pending_docs st)
      in \<lparr>pending_ids = [], pending_docs = [], pending_metas = [],
          added = added st @ [\<lparr>batch_ids = pending_ids st, batch_documents = pending_docs st,
                               batch_metadatas = pending_metas st, batch_embeddings = embs\<rparr>]\<rparr>)"

text \<open>
  The body of the loop for one line, with the batch size \<open>n\<close>. Where the document and
  the metadata are built the card is a dictionary, since \<^verbatim>\<open>card["id"]\<close> has succeeded.
\<close>

definition ingest_line ::
  "(string \<Rightarrow> pyval option) \<Rightarrow> (pyval \<Rightarrow> string) \<Rightarrow> (string list \<Rightarrow> 'v list) \<Rightarrow> nat
     \<Rightarrow> string \<Rightarrow> 'v ingest_state \<Rightarrow> error + 'v ingest_state" where
  "ingest_line loads rend e5_embed n line st =
     (case loads line of
        None \<Rightarrow> Inl JSONDecodeError
      | Some crd \<Rightarrow>
     (case item crd ''id'' of
        Inl e \<Rightarrow> Inl e
      | Inr ident \<Rightarrow>
     (case build_document rend (case crd of PDict d \<Rightarrow> d | _ \<Rightarrow> []) of
        Inl e \<Rightarrow> Inl e
      | Inr doc \<Rightarrow>
     (case build_metadata (case crd of PDict d \<Rightarrow> d | _ \<Rightarrow> []) of
        Inl e \<Rightarrow> Inl e
      | Inr meta \<Rightarrow>
        (let st = st\<lparr>pending_ids := pending_ids st @ [ident],
                       pending_docs := pending_docs st @ [doc],
                       pending_metas := pending_metas st @ [meta]\<rparr>
         in Inr (if n \<le> length (pending_ids st) then flush e5_embed st else st))))))"

fun ingest_loop ::
  "(string \<Rightarrow> pyval option) \<Rightarrow> (pyval \<Rightarrow> string) \<Rightarrow> (string list \<Rightarrow> 'v list) \<Rightarrow> nat
     \<Rightarrow> string list \<Rightarrow> 'v ingest_state \<Rightarrow> (error \<times> 'v batch list) + 'v ingest_state" where
  "ingest_loop loads rend e5_embed n [] st = Inr st"
| "ingest_loop loads rend e5_embed n (line # lines) st =
     (case ingest_line loads rend e5_embed n line st of
        Inl e \<Rightarrow> Inl (e, added st)
      | Inr st' \<Rightarrow> ingest_loop loads rend e5_embed n lines st')"

definition ingest_start :: "'v ingest_state" where
  "ingest_start = \<lparr>pending_ids = [], pending_docs = [], pending_metas = [], added = []\<rparr>"

text \<open>
  The whole run on the lines of the file: the loop, then the last, partial batch. The
  result is the error with the store at that time, or the store at the end.
\<close>

definition ingest_with ::
  "nat \<Rightarrow> (string \<Rightarrow> pyval option) \<Rightarrow> (pyval \<Rightarrow> string) \<Rightarrow> (string list \<Rightarrow> 'v list)
     \<Rightarrow> string list \<Rightarrow> (error \<times> 'v batch list) + 'v batch list" where
  "ingest_with n loads rend e5_embed lines =
     (case ingest_loop loads rend e5_embed n lines ingest_start of
        Inl err \<Rightarrow> Inl err
      | Inr st \<Rightarrow> Inr (added (if pending_ids st \<noteq> [] then flush e5_embed st else st)))"

definition ingest ::
  "(string \<Rightarrow> pyval option) \<Rightarrow> (pyval \<Rightarrow> string) \<Rightarrow> (string list \<Rightarrow> 'v list)
     \<Rightarrow> string list \<Rightarrow> (error \<times> 'v batch list) + 'v batch list" where
  "ingest = ingest_with batch_size"

text \<open>The identifier that a line contributes, when it has one.\<close>

definition line_id :: "(string \<Rightarrow> pyval option) \<Rightarrow> string \<Rightarrow> pyval option" where
  "line_id loads line =
     (case loads line of
        Some (PDict d) \<Rightarrow> map_of d ''id''
      | _ \<Rightarrow> None)"

text \<open>
  A line is accepted when the body of the loop raises nothing on it: it parses to a
  dictionary with an identifier whose document and metadata can be built.
\<close>

definition accepted :: "(string \<Rightarrow> pyval option) \<Rightarrow> (pyval \<Rightarrow> string) \<Rightarrow> string \<Rightarrow> bool" where
  "accepted loads rend line =
     (case loads line of
        Some (PDict d) \<Rightarrow>
          map_of d ''id'' \<noteq> None \<and> isl (build_document rend d) = False
          \<and> isl (build_metadata d) = False
      | _ \<Rightarrow> False)"

definition stored_ids :: "'v batch list \<Rightarrow> pyval set" where
  "stored_ids bs = (\<Union>b \<in> set bs. set (batch_ids b))"

section \<open>Content extraction (query\_cli.py)\<close>

text \<open>
  \<^verbatim>\<open>str.replace(old, new)\<close> for a non-empty \<open>old\<close>, as the code calls it: the
  occurrences are replaced from left to right, without overlap. \<open>replace_first\<close> is
  \<^verbatim>\<open>str.replace(old, new, 1)\<close>.
\<close>

function replace_all :: "string \<Rightarrow> string \<Rightarrow> string \<Rightarrow> string" where
  "replace_all old new s =
     (if old \<noteq> [] \<and> prefix old s then new @ replace_all old new (drop (length old) s)
      else case s of [] \<Rightarrow> [] | c # cs \<Rightarrow> c # replace_all old new cs)"
  by pat_completeness auto
termination
  by (relation "measure (\<lambda>(old, new, s). length s)") (auto simp: prefix_def)

declare replace_all.simps [simp del]

fun replace_first :: "string \<Rightarrow> string \<Rightarrow> string \<Rightarrow> string" where
  "replace_first old new [] = (if old = [] then new else [])"
| "replace_first old new (c # cs) =
     (if prefix old (c # cs) then new @ drop (length old) (c # cs)
      else c # replace_first old new cs)"

text \<open>\<^verbatim>\<open>document.replace("\r\n", "\n").replace("\r", "\n")\<close>\<close>

definition unix_newlines :: "string \<Rightarrow> string" where
  "unix_newlines s = replace_all [CR] [NL] (replace_all [CR, NL] [NL] s)"

text \<open>
  The pattern \<^verbatim>\<open>\w\<close> on the code points below 256 (letters, digits and the underscore),
  and the assertion \<^verbatim>\<open>\b\<close> between the character before a position and the text
  after it: exactly one of the two neighbours is a word character.
\<close>

definition is_word :: "char \<Rightarrow> bool" where
  "is_word c = (let n = (of_char c :: nat) in
     (48 \<le> n \<and> n \<le> 57) \<or> (65 \<le> n \<and> n \<le> 90) \<or> n = 95 \<or> (97 \<le> n \<and> n \<le> 122)
     \<or> n = 170 \<or> n = 178 \<or> n = 179 \<or> n = 181 \<or> n = 185 \<or> n = 186
     \<or> (188 \<le> n \<and> n \<le> 190) \<or> (192 \<le> n \<and> n \<le> 214)
     \<or> (216 \<le> n \<and> n \<le> 246) \<or> (248 \<le> n \<and> n \<le> 255))"

definition word_boundary :: "char option \<Rightarrow> string \<Rightarrow> bool" where
  "word_boundary prev rest \<longleftrightarrow>
     (case prev of None \<Rightarrow> False | Some c \<Rightarrow> is_word c)
     \<noteq> (case rest of [] \<Rightarrow> False | c # cs \<Rightarrow> is_word c)"

text \<open>
  \<^verbatim>\<open>CONTENT_RE = \bContent:\s*(?P<content>.*?)(?:\n(?:Checklist Items:|Symptoms:|Root cause:|Fix:|$))\<close>
  compiled with \<^verbatim>\<open>re.DOTALL\<close>. The matcher below follows the backtracking search of
  the pattern and returns the text of the group \<open>content\<close>.

  \<open>at_end\<close> is \<^verbatim>\<open>$\<close> without \<^verbatim>\<open>re.MULTILINE\<close>: the end of the text, or the place
  before a newline that ends the text. \<open>terminator\<close> is the final group: a newline
  followed by a section marker or by \<^verbatim>\<open>$\<close>.
\<close>

definition section_markers :: "string list" where
  "section_markers = [''Checklist Items:'', ''Symptoms:'', ''Root cause:'', ''Fix:'']"

definition at_end :: "string \<Rightarrow> bool" where
  "at_end s \<longleftrightarrow> s = [] \<or> s = [NL]"

definition starts_marker :: "string \<Rightarrow> bool" where
  "starts_marker s = list_ex (\<lambda>m. prefix m s) section_markers"

fun terminator :: "string \<Rightarrow> bool" where
  "terminator [] = False"
| "terminator (c # cs) = (c = NL \<and> (starts_marker cs \<or> at_end cs))"

text \<open>
  \<^verbatim>\<open>(?P<content>.*?)\<close> before the final group: the shortest text after which the
  final group matches (with \<^verbatim>\<open>re.DOTALL\<close> the dot matches every character).
\<close>

fun lazy_content :: "string \<Rightarrow> string option" where
  "lazy_content [] = None"
| "lazy_content (c # cs) =
     (if terminator (c # cs) then Some [] else map_option (Cons c) (lazy_content cs))"

text \<open>
  \<^verbatim>\<open>\s*\<close> before the group: as much white space as possible, giving it back one
  character at a time when the rest does not match.
\<close>

fun after_label :: "string \<Rightarrow> string option" where
  "after_label [] = lazy_content []"
| "after_label (c # cs) =
     (if is_space c then
        (case after_label cs of Some g \<Rightarrow> Some g | None \<Rightarrow> lazy_content (c # cs))
      else lazy_content (c # cs))"

definition match_here :: "char option \<Rightarrow> string \<Rightarrow> string option" where
  "match_here prev rest =
     (if word_boundary prev rest \<and> prefix ''Content:'' rest
      then after_label (drop (length ''Content:'') rest) else None)"

text \<open>\<^verbatim>\<open>CONTENT_RE.search\<close>: the match at the leftmost position that has one.\<close>

fun content_search :: "char option \<Rightarrow> string \<Rightarrow> string option" where
  "content_search prev [] = match_here prev []"
| "content_search prev (c # cs) =
     (case match_here prev (c # cs) of
        Some g \<Rightarrow> Some g
      | None \<Rightarrow> content_search (Some c) cs)"

definition extract_content :: "string option \<Rightarrow> string" where
  "extract_content document =
     (case document of
        None \<Rightarrow> []
      | Some d \<Rightarrow>
          if d = [] then []
          else
            (let doc = unix_newlines d
             in case content_search None doc of
                  Some g \<Rightarrow> strip g
                | None \<Rightarrow> strip (replace_first ''passage: '' [] doc)))"

subsection \<open>Reading the content back\<close>

text \<open>
  The conditions under which the content of a card can be read back from its document:
  a text mentions the label when \<open>Content:\<close> occurs in it; it is free of section breaks
  when no newline in it is followed by a section marker. \<open>later_lines\<close> are the lines of
  the sections that follow the content. \<open>drop_final_cr\<close> removes a carriage return that
  ends a line, as the first replacement does when a newline follows.
\<close>

fun mentions_label :: "string \<Rightarrow> bool" where
  "mentions_label [] = False"
| "mentions_label (c # cs) = (prefix ''Content:'' (c # cs) \<or> mentions_label cs)"

definition label_free :: "string \<Rightarrow> bool" where
  "label_free l \<longleftrightarrow> \<not> mentions_label l"

fun section_break_free :: "string \<Rightarrow> bool" where
  "section_break_free [] = True"
| "section_break_free (c # cs) = (\<not> (c = NL \<and> starts_marker cs) \<and> section_break_free cs)"

definition later_lines :: "(pyval \<Rightarrow> string) \<Rightarrow> pydict \<Rightarrow> string list" where
  "later_lines rend crd =
     list_lines rend crd ''items'' ''Checklist Items:''
     @ list_lines rend crd ''symptoms'' ''Symptoms:''
     @ field_line rend crd ''root_cause'' ''Root cause''
     @ list_lines rend crd ''fix'' ''Fix:''"

definition drop_final_cr :: "string \<Rightarrow> string" where
  "drop_final_cr u = (if u \<noteq> [] \<and> last u = CR then butlast u else u)"

section \<open>Query helper (rag\_chroma\_query.py)\<close>

text \<open>
  \<^verbatim>\<open>_e5_query_prefix\<close>: \<^verbatim>\<open>text = (text or "").strip(); return "query: " + text\<close>.
  The argument is an optional string.
\<close>

definition e5_query_prefix :: "string option \<Rightarrow> string" where
  "e5_query_prefix text =
     (let text = strip (case text of None \<Rightarrow> [] | Some s \<Rightarrow> if s = [] then [] else s)
      in ''query: '' @ text)"

text \<open>
  The embedding model is a parameter \<open>enc\<close>: \<^verbatim>\<open>model.encode(texts, normalize_embeddings)\<close>
  from a list of texts to a list of vectors. \<open>embed_query_call\<close> is the pair of arguments
  that \<^verbatim>\<open>embed_query\<close> passes to it; the result is row 0 of what the model returns.
\<close>

definition embed_query_call :: "string option \<Rightarrow> string list \<times> bool" where
  "embed_query_call query = (let q = e5_query_prefix query in ([q], True))"

definition embed_query :: "(string list \<Rightarrow> bool \<Rightarrow> 'v list) \<Rightarrow> string option \<Rightarrow> error + 'v" where
  "embed_query enc query =
     (let vec = (case embed_query_call query of (texts, flag) \<Rightarrow> enc texts flag)
      in case vec of [] \<Rightarrow> Inl IndexError | v # vs \<Rightarrow> Inr v)"

text \<open>
  The dictionary display \<^verbatim>\<open>{"pipeline_step": step, **where_extra}\<close>: the items of
  \<^verbatim>\<open>where_extra\<close> are stored one after the other; a key that is already there keeps its
  place and takes the new value.
\<close>

definition dict_merge :: "pydict \<Rightarrow> pydict \<Rightarrow> pydict" where
  "dict_merge base extra = foldl (\<lambda>d kv. AList.update (fst kv) (snd kv) d) base extra"

text \<open>
  The metadata filter of \<^verbatim>\<open>query\<close>. \<^verbatim>\<open>step\<close> is an optional string and
  \<^verbatim>\<open>where_extra\<close> an optional dictionary; each counts as given when it is neither
  \<^verbatim>\<open>None\<close> nor empty.
\<close>

definition given_step :: "string option \<Rightarrow> bool" where
  "given_step step = (case step of None \<Rightarrow> False | Some s \<Rightarrow> s \<noteq> [])"

definition given_extra :: "pydict option \<Rightarrow> bool" where
  "given_extra where_extra = (case where_extra of None \<Rightarrow> False | Some d \<Rightarrow> d \<noteq> [])"

definition query_where :: "string option \<Rightarrow> pydict option \<Rightarrow> pydict option" where
  "query_where step where_extra =
     (if given_step step \<and> given_extra where_extra
      then Some (dict_merge [(''pipeline_step'', PStr (the step))] (the where_extra))
      else if given_step step then Some [(''pipeline_step'', PStr (the step))]
      else if given_extra where_extra then Some (the where_extra)
      else None)"

text \<open>The arguments of \<^verbatim>\<open>collection.query\<close>.\<close>

record 'v store_query =
  query_embeddings :: "'v list"
  n_results :: int
  where_filter :: "pydict option"
  include_fields :: "string list"

definition query_request ::
  "'v \<Rightarrow> string option \<Rightarrow> int \<Rightarrow> pydict option \<Rightarrow> string list \<Rightarrow> 'v store_query" where
  "query_request q_emb step k where_extra incl =
     \<lparr>query_embeddings = [q_emb], n_results = k,
      where_filter = query_where step where_extra, include_fields = incl\<rparr>"

text \<open>
  Shaping the raw result. \<open>subscript\<close> is \<^verbatim>\<open>v[i]\<close> for a position \<open>i\<close>, \<open>py_len\<close> is
  \<^verbatim>\<open>len(v)\<close>. The conversion \<^verbatim>\<open>float(x)\<close> returns a float as it is; for any other
  value it is the parameter \<open>conv\<close>.
\<close>

fun subscript :: "pyval \<Rightarrow> nat \<Rightarrow> error + pyval" where
  "subscript (PList xs) i = (if i < length xs then Inr (xs ! i) else Inl IndexError)"
| "subscript (PStr s) i = (if i < length s then Inr (PStr [s ! i]) else Inl IndexError)"
| "subscript (PDict d) i = Inl KeyError"
| "subscript v i = Inl TypeError"

fun py_len :: "pyval \<Rightarrow> error + nat" where
  "py_len (PList xs) = Inr (length xs)"
| "py_len (PStr s) = Inr (length s)"
| "py_len (PDict d) = Inr (length d)"
| "py_len v = Inl TypeError"

definition py_float :: "(pyval \<Rightarrow> error + pyfloat) \<Rightarrow> pyval \<Rightarrow> error + pyfloat" where
  "py_float conv x = (case x of PFloat f \<Rightarrow> Inr f | _ \<Rightarrow> conv x)"

record rag_hit =
  hit_id :: pyval
  distance :: pyfloat
  document :: pyval
  metadata :: pyval

text \<open>
  \<^verbatim>\<open>res.get(key, [[]])[0] if key in res else [dflt] * len(ids)\<close>
\<close>

definition result_column :: "pydict \<Rightarrow> string \<Rightarrow> pyval \<Rightarrow> pyval \<Rightarrow> error + pyval" where
  "result_column res key dflt ids =
     (if key \<in> fst ` set res
      then subscript (dict_get_default res key (PList [PList []])) 0
      else (case py_len ids of
              Inl e \<Rightarrow> Inl e
            | Inr n \<Rightarrow> Inr (PList (replicate n dflt))))"

text \<open>One hit: the arguments of \<^verbatim>\<open>RagHit(...)\<close> are evaluated from left to right.\<close>

definition shape_hit ::
  "(pyval \<Rightarrow> error + pyfloat) \<Rightarrow> pyval \<Rightarrow> pyval \<Rightarrow> pyval \<Rightarrow> nat \<Rightarrow> pyval \<Rightarrow> error + rag_hit" where
  "shape_hit conv dists docs metas i ident =
     (case subscript dists i of
        Inl e \<Rightarrow> Inl e
      | Inr d \<Rightarrow>
     (case (if d \<noteq> PNone then py_float conv d else Inr NaN) of
        Inl e \<Rightarrow> Inl e
      | Inr dv \<Rightarrow>
     (case (if truthy docs then subscript docs i else Inr PNone) of
        Inl e \<Rightarrow> Inl e
      | Inr doc \<Rightarrow>
     (case (if truthy metas then subscript metas i else Inr (PDict [])) of
        Inl e \<Rightarrow> Inl e
      | Inr meta \<Rightarrow>
        Inr \<lparr>hit_id = ident, distance = dv, document = doc, metadata = meta\<rparr>))))"

text \<open>\<^verbatim>\<open>for i, _id in enumerate(ids): hits.append(...)\<close>\<close>

fun shape_rows ::
  "(pyval \<Rightarrow> error + pyfloat) \<Rightarrow> pyval \<Rightarrow> pyval \<Rightarrow> pyval \<Rightarrow> nat \<Rightarrow> pyval list
     \<Rightarrow> rag_hit list \<Rightarrow> error + rag_hit list" where
  "shape_rows conv dists docs metas i [] hits = Inr hits"
| "shape_rows conv dists docs metas i (ident # rest) hits =
     (case shape_hit conv dists docs metas i ident of
        Inl e \<Rightarrow> Inl e
      | Inr h \<Rightarrow> shape_rows conv dists docs metas (Suc i) rest (hits @ [h]))"

definition shape_hits :: "(pyval \<Rightarrow> error + pyfloat) \<Rightarrow> pydict \<Rightarrow> error + rag_hit list" where
  "shape_hits conv res =
     (case subscript (dict_get_default res ''ids'' (PList [PList []])) 0 of
        Inl e \<Rightarrow> Inl e
      | Inr ids \<Rightarrow>
     (case result_column res ''distances'' PNone ids of
        Inl e \<Rightarrow> Inl e
      | Inr dists \<Rightarrow>
     (case result_column res ''documents'' PNone ids of
        Inl e \<Rightarrow> Inl e
      | Inr docs \<Rightarrow>
     (case result_column res ''metadatas'' (PDict []) ids of
        Inl e \<Rightarrow> Inl e
      | Inr metas \<Rightarrow>
     (case py_iter ids of
        Inl e \<Rightarrow> Inl e
      | Inr rows \<Rightarrow> shape_rows conv dists docs metas 0 rows [])))))"

text \<open>
  \<^verbatim>\<open>RagChromaQuery.query\<close>. The store is the parameter \<open>store\<close>, from the arguments of
  \<^verbatim>\<open>collection.query\<close> to the raw result or an error of its own.
\<close>

definition query ::
  "(string list \<Rightarrow> bool \<Rightarrow> 'v list) \<Rightarrow> ('v store_query \<Rightarrow> error + pydict)
     \<Rightarrow> (pyval \<Rightarrow> error + pyfloat)
     \<Rightarrow> string option \<Rightarrow> string option \<Rightarrow> int \<Rightarrow> pydict option \<Rightarrow> string list
     \<Rightarrow> error + rag_hit list" where
  "query enc store conv text step k where_extra incl =
     (case embed_query enc text of
        Inl e \<Rightarrow> Inl e
      | Inr q_emb \<Rightarrow>
     (case store (query_request q_emb step k where_extra incl) of
        Inl e \<Rightarrow> Inl e
      | Inr res \<Rightarrow> shape_hits conv res))"

subsection \<open>The raw results on which the shaping is defined\<close>

text \<open>
  \<open>result_row res key dflt n\<close> is the row that the shaping reads for a key: \<open>n\<close> copies of
  the default when the key is missing, the first element of the stored list of lists
  when the key is there, and nothing for any other value. A distance entry is
  \<^verbatim>\<open>None\<close> or a float. \<open>hit_at\<close> is the hit expected at a position.
\<close>

definition result_row :: "pydict \<Rightarrow> string \<Rightarrow> pyval \<Rightarrow> nat \<Rightarrow> pyval list option" where
  "result_row res key dflt n =
     (case map_of res key of
        None \<Rightarrow> Some (replicate n dflt)
      | Some (PList (PList ys # rest)) \<Rightarrow> Some ys
      | Some v \<Rightarrow> None)"

definition distance_entry :: "pyval \<Rightarrow> bool" where
  "distance_entry d = (case d of PNone \<Rightarrow> True | PFloat f \<Rightarrow> True | _ \<Rightarrow> False)"

definition hit_at :: "pyval list \<Rightarrow> pyval list \<Rightarrow> pyval list \<Rightarrow> pyval list \<Rightarrow> nat \<Rightarrow> rag_hit" where
  "hit_at ids ds os ms i =
     \<lparr>hit_id = ids ! i,
      distance = (case ds ! i of PFloat f \<Rightarrow> f | _ \<Rightarrow> NaN),
      document = (if os = [] then PNone else os ! i),
      metadata = (if ms = [] then PDict [] else ms ! i)\<rparr>"


section \<open>Interactive query (query\_cli.py)\<close>

definition STEP_MAP :: "(int \<times> string) list" where
  "STEP_MAP =
     [(1, ''Step1_Premise''),
      (2, ''Step2_Premise_Consistency''),
      (3, ''Step3_Act_Structure''),
      (4, ''Step4_Character_Arc''),
      (5, ''Step5_Conflict_Escalation''),
      (6, ''Step6_Details'')]"

text \<open>\<^verbatim>\<open>STEP_MAP[n]\<close>\<close>

definition step_tag :: "int \<Rightarrow> error + string" where
  "step_tag n = (case map_of STEP_MAP n of None \<Rightarrow> Inl KeyError | Some s \<Rightarrow> Inr s)"

text \<open>
  \<^verbatim>\<open>parse_step\<close>. The conversion \<^verbatim>\<open>int(s)\<close> of a string is the parameter \<open>to_int\<close>, with
  \<open>None\<close> where \<^verbatim>\<open>int\<close> raises \<^verbatim>\<open>ValueError\<close>.
\<close>

definition parse_step :: "(string \<Rightarrow> int option) \<Rightarrow> string option \<Rightarrow> error + string" where
  "parse_step to_int step_input =
     (let s = strip (case step_input of None \<Rightarrow> [] | Some t \<Rightarrow> t)
      in if s = [] then step_tag 1
         else
           (case to_int s of
              None \<Rightarrow> Inl (ValueError ''Pipeline step must be an integer 1~6.'')
            | Some n \<Rightarrow>
                if map_of STEP_MAP n = None then Inl (ValueError ''Pipeline step must be in 1~6.'')
                else step_tag n))"

text \<open>
  What the loop of \<^verbatim>\<open>main\<close> prints while it asks for the step and the result count:
  the list of steps, the warning \<^verbatim>\<open>Step input error: {e}  -> using default step=1\<close>
  with the message of the error, and the warning that the result count is not an
  integer and the default is used.
\<close>

datatype printed = StepHelp | StepInputError string | TopKNotInteger

definition default_k :: int where
  "default_k = 6"

text \<open>\<^verbatim>\<open>str.lower\<close> on the code points below 256.\<close>

definition lower_char :: "char \<Rightarrow> char" where
  "lower_char c = (let n = (of_char c :: nat) in
     if (65 \<le> n \<and> n \<le> 90) \<or> (192 \<le> n \<and> n \<le> 214) \<or> (216 \<le> n \<and> n \<le> 222)
     then char_of (n + 32) else c)"

definition lower :: "string \<Rightarrow> string" where
  "lower s = map lower_char s"

text \<open>
  \<^verbatim>\<open>try: step = parse_step(step_raw)\<close>
  \<^verbatim>\<open>except ValueError as e: print(...); step = STEP_MAP[1]\<close>
\<close>

definition choose_step :: "(string \<Rightarrow> int option) \<Rightarrow> string \<Rightarrow> error + string \<times> printed list" where
  "choose_step to_int step_raw =
     (case parse_step to_int (Some step_raw) of
        Inr step \<Rightarrow> Inr (step, [])
      | Inl (ValueError e) \<Rightarrow>
          (case step_tag 1 of
             Inl err \<Rightarrow> Inl err
           | Inr step \<Rightarrow> Inr (step, [StepInputError e]))
      | Inl err \<Rightarrow> Inl err)"

text \<open>
  \<^verbatim>\<open>try: k = int(k_str) if k_str else default_k\<close>
  \<^verbatim>\<open>except ValueError: print(...); k = default_k\<close>
\<close>

definition choose_k :: "(string \<Rightarrow> int option) \<Rightarrow> string \<Rightarrow> int \<times> printed list" where
  "choose_k to_int k_str =
     (if k_str \<noteq> [] then
        (case to_int k_str of
           Some k \<Rightarrow> (k, [])
         | None \<Rightarrow> (default_k, [TopKNotInteger]))
      else (default_k, []))"

text \<open>
  One turn of the loop after the query text has been read: the lines typed by the user
  are taken from \<open>inputs\<close> (\<^verbatim>\<open>input\<close> raises \<^verbatim>\<open>EOFError\<close> when there is none); the result
  is the step, the result count, what was printed and the lines not read yet.
\<close>

definition read_input :: "string list \<Rightarrow> error + string \<times> string list" where
  "read_input inputs = (case inputs of [] \<Rightarrow> Inl EOFError | l # ls \<Rightarrow> Inr (l, ls))"

definition read_step_raw :: "string list \<Rightarrow> error + string \<times> printed list \<times> string list" where
  "read_step_raw inputs =
     (case read_input inputs of
        Inl e \<Rightarrow> Inl e
      | Inr (l, rest) \<Rightarrow>
          (let step_raw = strip l
           in if lower step_raw \<in> set [''help'', ''h'', ''?''] then
                (case read_input rest of
                   Inl e \<Rightarrow> Inl e
                 | Inr (l', rest') \<Rightarrow> Inr (strip l', [StepHelp], rest'))
              else Inr (step_raw, [], rest)))"

definition prompt_round ::
  "(string \<Rightarrow> int option) \<Rightarrow> string list \<Rightarrow> error + string \<times> int \<times> printed list \<times> string list" where
  "prompt_round to_int inputs =
     (case read_step_raw inputs of
        Inl e \<Rightarrow> Inl e
      | Inr (step_raw, out1, rest1) \<Rightarrow>
     (case choose_step to_int step_raw of
        Inl e \<Rightarrow> Inl e
      | Inr (step, out2) \<Rightarrow>
     (case read_input rest1 of
        Inl e \<Rightarrow> Inl e
      | Inr (l, rest2) \<Rightarrow>
          (case choose_k to_int (strip l) of
             (k, out3) \<Rightarrow> Inr (step, k, out1 @ out2 @ out3, rest2)))))"

text \<open>
  The decimal literals that \<^verbatim>\<open>int\<close> accepts on the code points below 256: white space
  around, an optional sign, then digits, where single underscores may stand between
  digits. It is used for the concrete inputs below.
\<close>

definition is_digit :: "char \<Rightarrow> bool" where
  "is_digit c = (let n = (of_char c :: nat) in 48 \<le> n \<and> n \<le> 57)"

definition digit_value :: "char \<Rightarrow> int" where
  "digit_value c = int (of_char c) - 48"

fun digits_value :: "string \<Rightarrow> int \<Rightarrow> int option" where
  "digits_value [] acc = Some acc"
| "digits_value (c # cs) acc =
     (if is_digit c then digits_value cs (10 * acc + digit_value c)
      else if c = CHR ''_'' \<and> cs \<noteq> [] \<and> is_digit (hd cs) then digits_value cs acc
      else None)"

definition unsigned :: "string \<Rightarrow> int option" where
  "unsigned s = (case s of [] \<Rightarrow> None | c # cs \<Rightarrow> if is_digit c then digits_value s 0 else None)"

definition py_int :: "string \<Rightarrow> int option" where
  "py_int s =
     (case strip s of
        [] \<Rightarrow> None
      | c # cs \<Rightarrow>
          if c = CHR ''+'' then unsigned cs
          else if c = CHR ''-'' then map_option uminus (unsigned cs)
          else unsigned (c # cs))"

section \<open>Concrete inputs\<close>

definition example_card :: pydict where
  "example_card =
     [(''id'', PStr ''c1''), (''title'', PStr ''T''), (''content'', PStr ''Hello''),
      (''fix'', PList [PStr ''do X'']), (''category'', PStr ''premise''),
      (''source'', PDict [(''name'', PStr ''Poetics'')]),
      (''tags'', PList [PStr ''a'', PInt 3, PStr ''b''])]"

definition render0 :: "pyval \<Rightarrow> string" where
  "render0 v = []"
definition example_card' :: pydict where
  "example_card' = (''type'', PStr ''advice'') # example_card"


text \<open>Cards whose content cannot be read back from the document.\<close>

definition padded_card :: pydict where
  "padded_card = [(''content'', PStr '' Hello''), (''fix'', PList [PStr ''x''])]"

definition broken_card :: pydict where
  "broken_card =
     [(''content'', PStr (''a'' @ [NL] @ ''Fix: b'')), (''fix'', PList [PStr ''x''])]"

definition labelled_card :: pydict where
  "labelled_card =
     [(''title'', PStr ''On Content: x''), (''content'', PStr ''Hello''),
      (''fix'', PList [PStr ''y''])]"

definition returned_card :: pydict where
  "returned_card = [(''content'', PStr (''a'' @ [CR] @ ''b'')), (''fix'', PList [PStr ''x''])]"

text \<open>A card with a title and a content only, as in the scenarios of the specification.\<close>

definition plain_card :: pydict where
  "plain_card = [(''id'', PStr ''c1''), (''title'', PStr ''T''), (''content'', PStr ''Hello'')]"

text \<open>
  Raw results of the store: one whose documents were not asked for, the key being
  there with the value \<^verbatim>\<open>None\<close>; one with the identifiers only; one with a missing
  distance and no documents; one like the first with the key \<open>documents\<close> left out.
\<close>

definition raw_without_documents :: pydict where
  "raw_without_documents =
     [(''ids'', PList [PList [PStr ''c1'']]),
      (''distances'', PList [PList [PFloat (Fin (1 / 10))]]),
      (''documents'', PNone),
      (''metadatas'', PList [PList [PDict [(''category'', PStr ''premise'')]]])]"

definition raw_ids_only :: pydict where
  "raw_ids_only = [(''ids'', PList [PList [PStr ''c1'', PStr ''c2'']])]"

definition raw_partial :: pydict where
  "raw_partial =
     [(''ids'', PList [PList [PStr ''c1'', PStr ''c2'']]),
      (''distances'', PList [PList [PFloat (Fin (1 / 10)), PNone]]),
      (''metadatas'', PList [PList [PDict [(''category'', PStr ''premise'')], PDict []]])]"

text \<open>
  A parser and an embedding function for three kinds of lines: \<open>a\<close> and \<open>b\<close> parse to
  cards, every other line is not parsable.
\<close>

definition toy_loads :: "string \<Rightarrow> pyval option" where
  "toy_loads line =
     (if line = ''a'' then Some (PDict [(''id'', PStr ''a''), (''content'', PStr ''A'')])
      else if line = ''b'' then Some (PDict [(''id'', PStr ''b'')])
      else None)"

definition toy_embed :: "string list \<Rightarrow> nat list" where
  "toy_embed texts = map length texts"



text \<open>A conversion to float that accepts nothing but a float.\<close>

definition strict_float :: "pyval \<Rightarrow> error + pyfloat" where
  "strict_float v = Inl TypeError"

definition raw_absent_documents :: pydict where
  "raw_absent_documents =
     [(''ids'', PList [PList [PStr ''c1'']]),
      (''distances'', PList [PList [PFloat (Fin (1 / 10))]]),
      (''metadatas'', PList [PList [PDict [(''category'', PStr ''premise'')]]])]"

definition empty_metadata :: pydict where
  "empty_metadata =
     [(''type'', PStr []), (''category'', PStr []), (''pipeline_step'', PStr []),
      (''source_name'', PStr []), (''source_url'', PStr []), (''tags'', PStr [])]"

section \<open>Properties of the document formatter\<close>

lemma append_field_line:
  "append_field rend crd k (label @ '': '') parts = parts @ field_line rend crd k label"
  by (simp add: append_field_def field_line_def dict_get_def split: option.splits)

lemma extend_section_lines:
  assumes "list_field crd k"
  shows "extend_section rend crd k header parts = Inr (parts @ list_lines rend crd k header)"
  using assms
  by (auto simp: extend_section_def list_lines_def list_field_def dict_get_def py_or_def bullet_def
      split: option.splits pyval.splits list.splits)

lemma build_document_lines:
  assumes "advice_card_lists crd"
  shows "build_document rend crd = Inr (format_document rend crd)"
proof -
  from assms have i: "list_field crd ''items''" and s: "list_field crd ''symptoms''"
    and f: "list_field crd ''fix''"
    by (simp_all add: advice_card_lists_def)
  have t: "''Title: '' = ''Title'' @ '': ''" and c: "''Content: '' = ''Content'' @ '': ''"
    and r: "''Root cause: '' = ''Root cause'' @ '': ''"
    by simp_all
  show ?thesis
    unfolding build_document_def Let_def t c r append_field_line
      extend_section_lines [OF i] extend_section_lines [OF s] extend_section_lines [OF f]
    by (simp add: format_document_def document_lines_def)
qed

lemma append_field_cong:
  "map_of crd k = map_of crd' k \<Longrightarrow> append_field rend crd k l p = append_field rend crd' k l p"
  by (simp add: append_field_def dict_get_def)

lemma extend_section_cong:
  "map_of crd k = map_of crd' k \<Longrightarrow> extend_section rend crd k h p = extend_section rend crd' k h p"
  by (simp add: extend_section_def dict_get_def)

lemma build_document_cong:
  assumes "same_fields crd crd'"
  shows "build_document rend crd' = build_document rend crd"
proof -
  from assms have e: "map_of crd ''title'' = map_of crd' ''title''"
    "map_of crd ''content'' = map_of crd' ''content''"
    "map_of crd ''items'' = map_of crd' ''items''"
    "map_of crd ''symptoms'' = map_of crd' ''symptoms''"
    "map_of crd ''root_cause'' = map_of crd' ''root_cause''"
    "map_of crd ''fix'' = map_of crd' ''fix''"
    by (simp_all add: same_fields_def document_fields_def)
  show ?thesis
    unfolding build_document_def Let_def
      append_field_cong [OF e(1)] append_field_cong [OF e(2)] append_field_cong [OF e(5)]
      extend_section_cong [OF e(3)] extend_section_cong [OF e(4)] extend_section_cong [OF e(6)]
    by (rule refl)
qed

text \<open>
  Claim C3. For every advice card (each of the list fields items, symptoms and fix being
  absent, empty or a list) the formatter fails nowhere and returns the prefix
  \<open>passage: \<close> followed by the stripped, newline-joined lines of the non-empty fields in
  the order Title, Content, Checklist Items, Symptoms, Root cause, Fix, a list field
  giving its header and one \<open>- item\<close> line per element and an absent or empty field giving
  no line; and two cards that agree on these six fields give the same document.
\<close>

theorem build_document_format:
  assumes "advice_card_lists crd"
  shows "build_document rend crd = Inr (format_document rend crd)
    \<and> (\<forall>crd'. same_fields crd crd' \<longrightarrow> build_document rend crd' = build_document rend crd)"
  using build_document_lines [OF assms] build_document_cong by blast

theorem build_document_format_witness:
  "advice_card_lists example_card \<and> same_fields example_card example_card'
   \<and> build_document render0 example_card
       = Inr (''passage: Title: T'' @ [NL] @ ''Content: Hello'' @ [NL] @ ''Fix:'' @ [NL] @ ''- do X'')
   \<and> build_document render0 example_card' = build_document render0 example_card"
proof -
  have h: "advice_card_lists example_card"
    by (simp add: advice_card_lists_def list_field_def example_card_def)
  have s: "same_fields example_card example_card'"
    by (simp add: same_fields_def document_fields_def example_card_def example_card'_def)
  have v: "format_document render0 example_card
    = ''passage: Title: T'' @ [NL] @ ''Content: Hello'' @ [NL] @ ''Fix:'' @ [NL] @ ''- do X''"
    by (simp add: format_document_def document_lines_def field_line_def list_lines_def
        example_card_def fmt_def strip_def lstrip_def rstrip_def is_space_def)
  from build_document_format [OF h, of render0] h s v show ?thesis by simp
qed

section \<open>Properties of the metadata projection\<close>

lemma string_tags: "map str_of (filter is_str ts) = [s. PStr s \<leftarrow> ts]"
  by (induction ts) (auto split: pyval.splits)

lemma tags_iter:
  assumes "list_field crd ''tags''"
  shows "py_iter (py_or (dict_get crd ''tags'') (PList [])) = Inr (tag_entries crd)"
  using assms
  by (auto simp: list_field_def tag_entries_def py_or_def dict_get_def
      split: option.splits pyval.splits)

lemma source_get:
  assumes "mapping_field crd ''source''"
  shows "attr_get (py_or (dict_get crd ''source'') (PDict [])) k (PStr [])
    = Inr (or_empty (map_of (source_fields crd) k))"
  using assms
  by (auto simp: mapping_field_def source_fields_def py_or_def dict_get_def attr_get_def
      dict_get_default_def or_empty_def split: option.splits pyval.splits)

lemma build_metadata_value:
  assumes "metadata_input crd"
  shows "build_metadata crd = Inr
    [(''type'', or_empty (map_of crd ''type'')),
     (''category'', or_empty (map_of crd ''category'')),
     (''pipeline_step'', or_empty (map_of crd ''pipeline_step'')),
     (''source_name'', or_empty (map_of (source_fields crd) ''name'')),
     (''source_url'', or_empty (map_of (source_fields crd) ''url'')),
     (''tags'', PStr (join '','' [s. PStr s \<leftarrow> tag_entries crd]))]"
proof -
  from assms have s: "mapping_field crd ''source''" and t: "list_field crd ''tags''"
    by (simp_all add: metadata_input_def)
  show ?thesis
    unfolding build_metadata_def Let_def tags_iter [OF t] source_get [OF s] string_tags
    by (simp add: dict_get_default_def or_empty_def)
qed

text \<open>
  Claim C2, as amended. For every record whose source is absent, empty or a mapping and
  whose tags are absent, empty or a list, the projection returns a mapping with exactly
  the six keys type, category, pipeline_step, source_name, source_url and tags; a key
  missing from the record or from its source gives the empty string, a key that is
  present gives its own value; and tags is the comma-join of exactly the tag entries
  that are strings.
\<close>

theorem build_metadata_shape:
  assumes "metadata_input crd"
  shows "\<exists>m. build_metadata crd = Inr m
    \<and> map fst m = metadata_keys
    \<and> (\<forall>k \<in> set [''type'', ''category'', ''pipeline_step''].
          map_of m k = Some (case map_of crd k of None \<Rightarrow> PStr [] | Some v \<Rightarrow> v))
    \<and> map_of m ''source_name''
        = Some (case map_of (source_fields crd) ''name'' of None \<Rightarrow> PStr [] | Some v \<Rightarrow> v)
    \<and> map_of m ''source_url''
        = Some (case map_of (source_fields crd) ''url'' of None \<Rightarrow> PStr [] | Some v \<Rightarrow> v)
    \<and> map_of m ''tags'' = Some (PStr (join '','' [s. PStr s \<leftarrow> tag_entries crd]))"
  unfolding build_metadata_value [OF assms]
  by (simp add: metadata_keys_def or_empty_def)

theorem build_metadata_shape_witness:
  "metadata_input example_card
   \<and> build_metadata example_card = Inr
        [(''type'', PStr []), (''category'', PStr ''premise''), (''pipeline_step'', PStr []),
         (''source_name'', PStr ''Poetics''), (''source_url'', PStr []), (''tags'', PStr ''a,b'')]"
proof -
  have h: "metadata_input example_card"
    by (simp add: metadata_input_def mapping_field_def list_field_def example_card_def)
  from build_metadata_shape [OF h] obtain m where m: "build_metadata example_card = Inr m"
    and k: "map fst m = metadata_keys"
    and r: "\<forall>k \<in> set [''type'', ''category'', ''pipeline_step''].
          map_of m k = Some (case map_of example_card k of None \<Rightarrow> PStr [] | Some v \<Rightarrow> v)"
    and n: "map_of m ''source_name''
        = Some (case map_of (source_fields example_card) ''name'' of None \<Rightarrow> PStr [] | Some v \<Rightarrow> v)"
    and u: "map_of m ''source_url''
        = Some (case map_of (source_fields example_card) ''url'' of None \<Rightarrow> PStr [] | Some v \<Rightarrow> v)"
    and t: "map_of m ''tags'' = Some (PStr (join '','' [s. PStr s \<leftarrow> tag_entries example_card]))"
    by blast
  from k obtain v1 v2 v3 v4 v5 v6 where
    ms: "m = [(''type'', v1), (''category'', v2), (''pipeline_step'', v3),
              (''source_name'', v4), (''source_url'', v5), (''tags'', v6)]"
    by (auto simp: metadata_keys_def map_eq_Cons_conv)
  from r n u t have "v1 = PStr []" "v2 = PStr ''premise''" "v3 = PStr []"
    "v4 = PStr ''Poetics''" "v5 = PStr []" "v6 = PStr ''a,b''"
    unfolding ms by (simp_all add: example_card_def source_fields_def tag_entries_def)
  with h m ms show ?thesis by simp
qed

text \<open>
  Claim C2 as stated fails: a record whose source is a string, or whose tags are a
  number, makes the projection raise, and the stage key of the result is
  \<open>pipeline_step\<close>, not \<open>pipeline_stage\<close>.
\<close>

theorem build_metadata_counterexample:
  "build_metadata [(''source'', PStr ''Book'')] = Inl AttributeError
   \<and> build_metadata [(''tags'', PInt 3)] = Inl TypeError
   \<and> build_metadata [] = Inr
        [(''type'', PStr []), (''category'', PStr []), (''pipeline_step'', PStr []),
         (''source_name'', PStr []), (''source_url'', PStr []), (''tags'', PStr [])]"
  by (simp add: build_metadata_def py_or_def dict_get_def attr_get_def dict_get_default_def)


section \<open>Properties of the content extraction\<close>

subsection \<open>Strings\<close>


lemma prefix_append_blocked:
  assumes "prefix m (xs @ x # ys)" and "x \<notin> set m"
  shows "prefix m xs"
proof (cases "length m \<le> length xs")
  case True
  with assms(1) show ?thesis
    by (metis prefix_length_prefix prefixI append.assoc)
next
  case False
  from assms(1) obtain zs where z: "xs @ x # ys = m @ zs"
    by (auto simp: prefix_def)
  from False have "length xs < length m" by simp
  then have "m ! length xs = (m @ zs) ! length xs"
    by (simp add: nth_append)
  also have "\<dots> = x" using z [symmetric] by (simp add: nth_append)
  finally have "x \<in> set m" using \<open>length xs < length m\<close> by (metis nth_mem)
  with assms(2) show ?thesis by simp
qed

lemma rstrip_append_keep:
  assumes "rstrip ys \<noteq> []"
  shows "rstrip (xs @ ys) = xs @ rstrip ys"
proof -
  from assms have "\<not> (\<forall>c \<in> set (rev ys). is_space c)"
    by (auto simp: rstrip_def dropWhile_eq_Nil_conv)
  then have "dropWhile is_space (rev ys @ rev xs) = dropWhile is_space (rev ys) @ rev xs"
    by (metis dropWhile_append1)
  then show ?thesis by (simp add: rstrip_def)
qed

lemma prefix_rstrip:
  assumes "prefix m ys" and "m \<noteq> []" and "\<not> is_space (last m)"
  shows "prefix m (rstrip ys)"
proof -
  from assms(1) obtain zs where ys: "ys = m @ zs" by (auto simp: prefix_def)
  from assms(2) obtain m' where m: "m = m' @ [last m]"
    by (metis append_butlast_last_id)
  have "dropWhile is_space (rev zs @ last m # rev m')
    = (if \<forall>c \<in> set (rev zs). is_space c then last m # rev m'
       else dropWhile is_space (rev zs) @ last m # rev m')"
    using assms(3) by (simp add: dropWhile_append)
  then have "rstrip (m' @ [last m] @ zs)
    = (if \<forall>c \<in> set (rev zs). is_space c then m' @ [last m]
       else m' @ [last m] @ rstrip zs)"
    by (simp add: rstrip_def)
  with m ys show ?thesis by (metis append.assoc prefixI append_Nil2)
qed

lemma join_Cons: "join sep (x # xs) = (if xs = [] then x else x @ sep @ join sep xs)"
  by (cases xs) simp_all

lemma join_append:
  "xs \<noteq> [] \<Longrightarrow> ys \<noteq> [] \<Longrightarrow> join sep (xs @ ys) = join sep xs @ sep @ join sep ys"
  by (induction sep xs rule: join.induct) (simp_all add: join_Cons)

lemma replace_all_clean:
  assumes "hd old \<notin> set xs"
  shows "replace_all old new (xs @ ys) = xs @ replace_all old new ys"
  using assms
proof (induction xs)
  case Nil
  show ?case by simp
next
  case (Cons x xs)
  then have n: "\<not> (old \<noteq> [] \<and> prefix old (x # xs @ ys))"
    by (cases old) auto
  have "replace_all old new (x # xs @ ys) = x # replace_all old new (xs @ ys)"
    by (subst replace_all.simps) (simp only: n if_False list.case)
  with Cons show ?case by simp
qed


lemma mentions_label_snoc:
  assumes "x \<notin> set ''Content:''"
  shows "mentions_label (t @ [x]) = mentions_label t"
proof (induction t)
  case Nil
  from assms show ?case by auto
next
  case (Cons a t)
  have "prefix ''Content:'' (a # t @ [x]) = prefix ''Content:'' (a # t)"
  proof
    assume "prefix ''Content:'' (a # t @ [x])"
    then have "prefix ''Content:'' ((a # t) @ x # [])" by simp
    from prefix_append_blocked [OF this assms] show "prefix ''Content:'' (a # t)" .
  next
    assume "prefix ''Content:'' (a # t)"
    then have "prefix ''Content:'' ((a # t) @ [x])" by (rule prefix_prefix)
    then show "prefix ''Content:'' (a # t @ [x])" by simp
  qed
  with Cons show ?case by simp
qed

lemma match_here_None: "\<not> prefix ''Content:'' r \<Longrightarrow> match_here prev r = None"
  by (simp add: match_here_def)

lemma content_search_skip:
  assumes "\<not> mentions_label (p @ [x])" and "x \<notin> set ''Content:''"
  shows "content_search prev (p @ x # q) = content_search (Some x) q"
  using assms(1)
proof (induction p arbitrary: prev)
  case Nil
  from assms(2) have "\<not> prefix ''Content:'' (x # q)" by auto
  from match_here_None [OF this] show ?case by simp
next
  case (Cons a p)
  from Cons.prems have n: "\<not> prefix ''Content:'' (a # p @ [x])" and r: "\<not> mentions_label (p @ [x])"
    by simp_all
  have "\<not> prefix ''Content:'' ((a # p) @ x # q)"
  proof
    assume "prefix ''Content:'' ((a # p) @ x # q)"
    from prefix_append_blocked [OF this assms(2)] have "prefix ''Content:'' (a # p)" .
    then have "prefix ''Content:'' ((a # p) @ [x])" by (rule prefix_prefix)
    with n show False by simp
  qed
  from match_here_None [OF this] have "match_here prev (a # p @ x # q) = None" by simp
  with Cons.IH [OF r] show ?case by simp
qed

lemma starts_marker_nonempty: "starts_marker z \<Longrightarrow> \<not> at_end z \<and> z \<noteq> []"
  by (auto simp: starts_marker_def section_markers_def at_end_def)

lemma starts_marker_blocked:
  assumes "starts_marker (xs @ NL # ys)"
  shows "starts_marker xs"
proof -
  from assms obtain m where m: "m \<in> set section_markers" and p: "prefix m (xs @ NL # ys)"
    by (auto simp: starts_marker_def list_ex_iff)
  from m have "NL \<notin> set m" by (auto simp: section_markers_def)
  from prefix_append_blocked [OF p this] m show ?thesis
    by (auto simp: starts_marker_def list_ex_iff)
qed

lemma lazy_content_exact:
  assumes "starts_marker z"
  shows "section_break_free c \<Longrightarrow> lazy_content (c @ NL # z) = Some c"
proof (induction c)
  case Nil
  from assms show ?case by simp
next
  case (Cons a c)
  from Cons.prems have b: "\<not> (a = NL \<and> starts_marker c)" and f: "section_break_free c"
    by simp_all
  from assms have "\<not> at_end (c @ NL # z)"
    using starts_marker_nonempty [OF assms] by (cases c) (auto simp: at_end_def)
  moreover from b have "\<not> (a = NL \<and> starts_marker (c @ NL # z))"
    using starts_marker_blocked by blast
  ultimately have "\<not> terminator (a # c @ NL # z)" by simp
  with Cons.IH [OF f] show ?case by simp
qed

lemma strip_fixed_hd:
  assumes "strip c = c" and "c \<noteq> []"
  shows "\<not> is_space (hd c)"
proof
  assume s: "is_space (hd c)"
  from assms(2) obtain a cs where c: "c = a # cs" by (cases c) auto
  have "length (rstrip (lstrip c)) \<le> length (lstrip c)"
    by (simp add: rstrip_def length_dropWhile_le [of is_space "rev (lstrip c)", simplified])
  also have "\<dots> < length c"
    using s c length_dropWhile_le [of is_space cs] by (simp add: lstrip_def)
  finally show False using assms(1) by (simp add: strip_def)
qed

lemma after_label_exact:
  assumes "starts_marker z" and "section_break_free c" and "c \<noteq> []" and "\<not> is_space (hd c)"
  shows "after_label (CHR '' '' # c @ NL # z) = Some c"
proof -
  from assms(3) obtain a cs where c: "c = a # cs" by (cases c) auto
  with assms(4) have "after_label (c @ NL # z) = lazy_content (c @ NL # z)" by simp
  with lazy_content_exact [OF assms(1,2)] show ?thesis
    by (simp add: is_space_def)
qed

lemma content_search_label:
  assumes "starts_marker z" and "section_break_free c" and "c \<noteq> []" and "\<not> is_space (hd c)"
    and "\<not> is_word x"
  shows "content_search (Some x) (''Content: '' @ c @ NL # z) = Some c"
proof -
  have "match_here (Some x) (''Content: '' @ c @ NL # z) = after_label (CHR '' '' # c @ NL # z)"
    using assms(5) by (simp add: match_here_def word_boundary_def is_word_def)
  with after_label_exact [OF assms(1-4)] show ?thesis by simp
qed


lemma starts_marker_append: "starts_marker xs \<Longrightarrow> starts_marker (xs @ ys)"
  by (auto simp: starts_marker_def list_ex_iff intro: prefix_prefix)

lemma starts_marker_join:
  assumes "ls \<noteq> []" and "starts_marker (hd ls)"
  shows "starts_marker (join sep ls)"
proof -
  from assms(1) obtain x xs where "ls = x # xs" by (cases ls) auto
  with assms(2) show ?thesis
    by (simp add: join_Cons starts_marker_append)
qed

lemma list_lines_marked:
  assumes "h \<in> set section_markers"
  shows "list_lines rend crd k h = [] \<or> starts_marker (hd (list_lines rend crd k h))"
  using assms
  by (auto simp: list_lines_def starts_marker_def list_ex_iff
      split: option.splits pyval.splits list.splits)

lemma root_cause_marked:
  "field_line rend crd k ''Root cause'' = []
   \<or> starts_marker (hd (field_line rend crd k ''Root cause''))"
  by (simp add: field_line_def starts_marker_def section_markers_def split: option.splits)

lemma marked_append:
  assumes "a = [] \<or> starts_marker (hd a)" and "b = [] \<or> starts_marker (hd b)"
  shows "a @ b = [] \<or> starts_marker (hd (a @ b))"
  using assms by (cases a) auto

lemma later_lines_marked:
  assumes "later_lines rend crd \<noteq> []"
  shows "starts_marker (join [NL] (later_lines rend crd))"
proof -
  have i: "''Checklist Items:'' \<in> set section_markers" and s: "''Symptoms:'' \<in> set section_markers"
    and f: "''Fix:'' \<in> set section_markers"
    by (simp_all add: section_markers_def)
  have "later_lines rend crd = [] \<or> starts_marker (hd (later_lines rend crd))"
    unfolding later_lines_def
    by (intro marked_append list_lines_marked [OF i] list_lines_marked [OF s]
        list_lines_marked [OF f] root_cause_marked)
  with assms show ?thesis by (simp add: starts_marker_join)
qed

lemma starts_marker_rstrip:
  assumes "starts_marker z"
  shows "starts_marker (rstrip z) \<and> rstrip z \<noteq> []"
proof -
  from assms obtain m where m: "m \<in> set section_markers" and p: "prefix m z"
    by (auto simp: starts_marker_def list_ex_iff)
  from m have "m \<noteq> []" and "\<not> is_space (last m)"
    by (auto simp: section_markers_def is_space_def)
  from prefix_rstrip [OF p this] m have "starts_marker (rstrip z)"
    by (auto simp: starts_marker_def list_ex_iff)
  with starts_marker_nonempty show ?thesis by blast
qed

lemma starts_marker_replace_all:
  assumes "starts_marker z" and "hd old = CR"
  shows "starts_marker (replace_all old new z)"
proof -
  from assms(1) obtain m where m: "m \<in> set section_markers" and p: "prefix m z"
    by (auto simp: starts_marker_def list_ex_iff)
  from p obtain r where z: "z = m @ r" by (auto simp: prefix_def)
  from m assms(2) have "hd old \<notin> set m" by (auto simp: section_markers_def)
  from replace_all_clean [OF this] z have "prefix m (replace_all old new z)" by simp
  with m show ?thesis by (auto simp: starts_marker_def list_ex_iff)
qed

lemma replace_all_Nil: "replace_all old new [] = []"
  by (subst replace_all.simps) simp

lemma replace_all_char_append:
  "replace_all [x] new (u @ v) = replace_all [x] new u @ replace_all [x] new v"
proof (induction u)
  case Nil
  show ?case by (simp add: replace_all_Nil)
next
  case (Cons a u)
  show ?case
  proof (cases "a = x")
    case True
    have "replace_all [x] new (x # w) = new @ replace_all [x] new w" for w
      by (subst replace_all.simps) simp
    with Cons True show ?thesis by simp
  next
    case False
    then have "replace_all [x] new (a # w) = a # replace_all [x] new w" for w
      by (subst replace_all.simps) simp
    with Cons show ?thesis by simp
  qed
qed

lemma replace_crlf_hit: "replace_all [CR, NL] new (CR # NL # w) = new @ replace_all [CR, NL] new w"
  by (subst replace_all.simps) simp

lemma replace_all_miss:
  "\<not> prefix old s
     \<Longrightarrow> replace_all old new s = (case s of [] \<Rightarrow> [] | c # cs \<Rightarrow> c # replace_all old new cs)"
  by (subst replace_all.simps) simp

lemma replace_all_hit:
  "old \<noteq> [] \<Longrightarrow> prefix old s
     \<Longrightarrow> replace_all old new s = new @ replace_all old new (drop (length old) s)"
  by (subst replace_all.simps) simp

lemma replace_crlf_miss:
  assumes "\<not> prefix [CR, NL] (a # w)"
  shows "replace_all [CR, NL] new (a # w) = a # replace_all [CR, NL] new w"
  using replace_all_miss [OF assms] by simp

lemma replace_crlf_before_newline:
  "replace_all [CR, NL] [NL] (u @ NL # r)
   = replace_all [CR, NL] [NL] (drop_final_cr u) @ NL # replace_all [CR, NL] [NL] r"
proof (induction u rule: induct_list012)
  case 1
  show ?case by (simp add: drop_final_cr_def replace_all_Nil replace_crlf_miss)
next
  case (2 a)
  show ?case
    by (cases "a = CR")
      (simp_all add: drop_final_cr_def replace_all_Nil replace_crlf_miss replace_crlf_hit)
next
  case (3 a b u)
  have t: "drop_final_cr (a # b # u) = a # drop_final_cr (b # u)"
    by (simp add: drop_final_cr_def)
  show ?case
  proof (cases "a = CR \<and> b = NL")
    case True
    have "drop_final_cr (CR # NL # u) = CR # NL # drop_final_cr u"
      by (simp add: drop_final_cr_def)
    with True 3(1) show ?thesis by (simp add: replace_crlf_hit)
  next
    case False
    then have m: "\<not> prefix [CR, NL] (a # (b # u) @ NL # r)" by auto
    from False have n: "\<not> prefix [CR, NL] (a # drop_final_cr (b # u))"
      by (auto simp: drop_final_cr_def)
    from 3(2) show ?thesis
      unfolding t using replace_crlf_miss [OF m] replace_crlf_miss [OF n] by simp
  qed
qed

lemma mentions_label_append: "mentions_label xs \<Longrightarrow> mentions_label (xs @ ys)"
  by (induction xs) (auto intro: prefix_prefix simp del: prefix_Cons)

lemma prefix_replace_all:
  "NL \<notin> set m \<Longrightarrow> hd old \<notin> set m \<Longrightarrow> old \<noteq> []
     \<Longrightarrow> prefix m (replace_all old [NL] s) \<Longrightarrow> prefix m s"
proof (induction m arbitrary: s)
  case Nil
  show ?case by simp
next
  case (Cons a m)
  show ?case
  proof (cases "prefix old s")
    case True
    from replace_all_hit [OF Cons.prems(3) True] Cons.prems(1,4) show ?thesis by simp
  next
    case False
    show ?thesis
    proof (cases s)
      case Nil
      with Cons.prems(4) show ?thesis by (simp add: replace_all_Nil)
    next
      case (Cons c cs)
      with replace_all_miss [OF False] have "replace_all old [NL] s = c # replace_all old [NL] cs"
        by simp
      with Cons.prems(4) have "a = c" and "prefix m (replace_all old [NL] cs)" by simp_all
      moreover from Cons.prems(1,2) have "NL \<notin> set m" and "hd old \<notin> set m" by simp_all
      ultimately show ?thesis
        using Cons.IH [of cs] Cons.prems(3) Cons by simp
    qed
  qed
qed

lemma mentions_label_suffix: "mentions_label (drop n s) \<Longrightarrow> mentions_label s"
proof (induction s arbitrary: n)
  case Nil
  then show ?case by simp
next
  case (Cons a s)
  then show ?case by (cases n) auto
qed

lemma mentions_label_replace_all:
  assumes "hd old = CR" and "old \<noteq> []"
  shows "mentions_label (replace_all old [NL] s) \<Longrightarrow> mentions_label s"
proof (induction s rule: length_induct)
  case (1 s)
  show ?case
  proof (cases "prefix old s")
    case True
    with assms(2) have l: "length (drop (length old) s) < length s"
      by (cases old; cases s) auto
    from replace_all_hit [OF assms(2) True, of "[NL]"] "1.prems"
    have "mentions_label (replace_all old [NL] (drop (length old) s))" by simp
    with "1.IH" l have "mentions_label (drop (length old) s)" by blast
    then show ?thesis by (rule mentions_label_suffix)
  next
    case False
    show ?thesis
    proof (cases s)
      case Nil
      with "1.prems" show ?thesis by (simp add: replace_all_Nil)
    next
      case (Cons c cs)
      with replace_all_miss [OF False] have r: "replace_all old [NL] s = c # replace_all old [NL] cs"
        by simp
      with "1.prems" consider "prefix ''Content:'' (replace_all old [NL] s)"
        | "mentions_label (replace_all old [NL] cs)"
        by auto
      then show ?thesis
      proof cases
        case 1
        have "prefix ''Content:'' s"
          by (rule prefix_replace_all [OF _ _ assms(2) 1]) (simp_all add: assms(1))
        with Cons show ?thesis by simp
      next
        case 2
        with "1.IH" Cons have "mentions_label cs" by simp
        with Cons show ?thesis by simp
      qed
    qed
  qed
qed

lemma mentions_label_unix:
  assumes "\<not> mentions_label l"
  shows "\<not> mentions_label (replace_all [CR] [NL] (replace_all [CR, NL] [NL] (drop_final_cr l)))"
proof
  assume "mentions_label (replace_all [CR] [NL] (replace_all [CR, NL] [NL] (drop_final_cr l)))"
  then have "mentions_label (replace_all [CR, NL] [NL] (drop_final_cr l))"
    by (rule mentions_label_replace_all [rotated 2]) simp_all
  then have "mentions_label (drop_final_cr l)"
    by (rule mentions_label_replace_all [rotated 2]) simp_all
  then have "mentions_label (drop_final_cr l @ (if l \<noteq> [] \<and> last l = CR then [CR] else []))"
    by (rule mentions_label_append)
  moreover have "drop_final_cr l @ (if l \<noteq> [] \<and> last l = CR then [CR] else []) = l"
    by (auto simp: drop_final_cr_def dest: append_butlast_last_id)
  ultimately show False using assms by simp
qed


lemma unix_newlines_clean:
  assumes "CR \<notin> set a"
  shows "unix_newlines (a @ b) = a @ unix_newlines b"
proof -
  from assms have "hd [CR, NL] \<notin> set a" and "hd [CR] \<notin> set a" by simp_all
  from replace_all_clean [OF this(1)] replace_all_clean [OF this(2)] show ?thesis
    by (simp add: unix_newlines_def)
qed

lemma unix_newlines_before_newline:
  "unix_newlines (u @ NL # r) = unix_newlines (drop_final_cr u) @ NL # unix_newlines r"
proof -
  have "replace_all [CR] [NL] (NL # w) = NL # replace_all [CR] [NL] w" for w
    using replace_all_miss [of "[CR]" "NL # w" "[NL]"] by simp
  then show ?thesis
    by (simp add: unix_newlines_def replace_crlf_before_newline replace_all_char_append)
qed

lemma starts_marker_unix:
  assumes "starts_marker z"
  shows "starts_marker (unix_newlines z)"
  unfolding unix_newlines_def
  by (intro starts_marker_replace_all assms) simp_all

lemma lstrip_id: "s \<noteq> [] \<Longrightarrow> \<not> is_space (hd s) \<Longrightarrow> lstrip s = s"
  by (cases s) (simp_all add: lstrip_def)

lemma strip_body:
  assumes "starts_marker j" and "b \<noteq> []" and "\<not> is_space (hd b)"
  shows "\<exists>z. strip (b @ NL # j) = b @ NL # z \<and> starts_marker z"
proof -
  from assms(2,3) have "lstrip (b @ NL # j) = b @ NL # j"
    by (intro lstrip_id) simp_all
  moreover have "rstrip ((b @ [NL]) @ j) = (b @ [NL]) @ rstrip j"
    using starts_marker_rstrip [OF assms(1)] by (intro rstrip_append_keep) simp
  ultimately have "strip (b @ NL # j) = b @ NL # rstrip j"
    by (simp add: strip_def)
  with starts_marker_rstrip [OF assms(1)] show ?thesis by blast
qed

lemma field_line_cases:
  "field_line rend crd k label = [] \<or> (\<exists>t. field_line rend crd k label = [label @ '': '' @ t])"
  by (simp add: field_line_def split: option.splits)

lemma build_document_shape:
  assumes "advice_card_lists crd" and "map_of crd ''content'' = Some (PStr c)" and "c \<noteq> []"
    and "later_lines rend crd \<noteq> []"
  shows "\<exists>p z. build_document rend crd = Inr (''passage: '' @ p @ ''Content: '' @ c @ NL # z)
    \<and> starts_marker z
    \<and> (p = [] \<or> (\<exists>l. field_line rend crd ''title'' ''Title'' = [l] \<and> p = l @ [NL]))"
proof -
  let ?T = "field_line rend crd ''title'' ''Title''"
  let ?L = "later_lines rend crd"
  have c: "field_line rend crd ''content'' ''Content'' = [''Content: '' @ c]"
    using assms(2,3) by (simp add: field_line_def fmt_def)
  have lines: "document_lines rend crd = ?T @ [''Content: '' @ c] @ ?L"
    by (simp add: document_lines_def later_lines_def c)
  have j: "starts_marker (join [NL] ?L)"
    by (rule later_lines_marked [OF assms(4)])
  have doc: "build_document rend crd = Inr (''passage: '' @ strip (join [NL] (document_lines rend crd)))"
    using build_document_lines [OF assms(1)] by (simp add: format_document_def)
  from field_line_cases [of rend crd "''title''" "''Title''"] show ?thesis
  proof
    assume t: "?T = []"
    have "join [NL] (document_lines rend crd) = (''Content: '' @ c) @ NL # join [NL] ?L"
      using assms(4) by (simp add: lines t join_Cons)
    moreover from strip_body [OF j, of "''Content: '' @ c"]
    obtain z where "strip ((''Content: '' @ c) @ NL # join [NL] ?L) = (''Content: '' @ c) @ NL # z"
      and "starts_marker z"
      by (auto simp: is_space_def)
    ultimately show ?thesis using doc by auto
  next
    assume "\<exists>t. ?T = [''Title'' @ '': '' @ t]"
    then obtain t where t: "?T = [''Title: '' @ t]" by auto
    let ?b = "(''Title: '' @ t) @ NL # ''Content: '' @ c"
    have "join [NL] (document_lines rend crd) = ?b @ NL # join [NL] ?L"
      using assms(4) by (simp add: lines t join_Cons)
    moreover from strip_body [OF j, of ?b]
    obtain z where "strip (?b @ NL # join [NL] ?L) = ?b @ NL # z" and "starts_marker z"
      by (auto simp: is_space_def)
    ultimately have "build_document rend crd
      = Inr (''passage: '' @ ((''Title: '' @ t) @ [NL]) @ ''Content: '' @ c @ NL # z)"
      using doc by simp
    with \<open>starts_marker z\<close> t show ?thesis by blast
  qed
qed

lemma extract_content_shape:
  assumes "starts_marker z" and "section_break_free c" and "c \<noteq> []" and "strip c = c"
    and "CR \<notin> set c" and "p = [] \<or> (\<exists>l. \<not> mentions_label l \<and> p = l @ [NL])"
  shows "extract_content (Some (''passage: '' @ p @ ''Content: '' @ c @ NL # z)) = c"
proof -
  let ?d = "''passage: '' @ p @ ''Content: '' @ c @ NL # z"
  let ?z = "unix_newlines z"
  have z: "starts_marker ?z" by (rule starts_marker_unix [OF assms(1)])
  have h: "\<not> is_space (hd c)" by (rule strip_fixed_hd [OF assms(4,3)])
  from assms(5) have "CR \<notin> set (''Content: '' @ c @ [NL])" by simp
  from unix_newlines_clean [OF this, of z]
  have t: "unix_newlines (''Content: '' @ c @ NL # z) = ''Content: '' @ c @ NL # ?z" by simp
  have s: "content_search None (unix_newlines ?d) = Some c"
  proof -
    from assms(6) show ?thesis
    proof
      assume p: "p = []"
      have "unix_newlines (''passage: '' @ (''Content: '' @ c @ NL # z))
        = ''passage: '' @ unix_newlines (''Content: '' @ c @ NL # z)"
        by (rule unix_newlines_clean) simp
      with p t have "unix_newlines ?d = ''passage:'' @ CHR '' '' # (''Content: '' @ c @ NL # ?z)"
        by simp
      moreover have "content_search None (''passage:'' @ CHR '' '' # (''Content: '' @ c @ NL # ?z))
        = content_search (Some (CHR '' '')) (''Content: '' @ c @ NL # ?z)"
        by (rule content_search_skip) simp_all
      moreover have "\<dots> = Some c"
        by (rule content_search_label [OF z assms(2,3) h]) (simp add: is_word_def)
      ultimately show ?thesis by simp
    next
      assume "\<exists>l. \<not> mentions_label l \<and> p = l @ [NL]"
      then obtain l where l: "\<not> mentions_label l" and p: "p = l @ [NL]" by blast
      define l' where "l' = unix_newlines (drop_final_cr l)"
      from mentions_label_unix [OF l] have l': "\<not> mentions_label l'"
        by (simp add: l'_def unix_newlines_def)
      have "drop_final_cr (''passage: '' @ l) = ''passage: '' @ drop_final_cr l"
        by (simp add: drop_final_cr_def butlast_append)
      moreover have "unix_newlines (''passage: '' @ drop_final_cr l) = ''passage: '' @ l'"
        unfolding l'_def by (rule unix_newlines_clean) simp
      ultimately have "unix_newlines ((''passage: '' @ l) @ NL # (''Content: '' @ c @ NL # z))
        = (''passage: '' @ l') @ NL # (''Content: '' @ c @ NL # ?z)"
        unfolding unix_newlines_before_newline t by simp
      with p have u: "unix_newlines ?d = (''passage: '' @ l') @ NL # (''Content: '' @ c @ NL # ?z)"
        by simp
      have "mentions_label ((''passage: '' @ l') @ [NL]) = mentions_label (''passage: '' @ l')"
        by (rule mentions_label_snoc) simp
      with l' have m: "\<not> mentions_label ((''passage: '' @ l') @ [NL])" by simp
      have "content_search None ((''passage: '' @ l') @ NL # (''Content: '' @ c @ NL # ?z))
        = content_search (Some NL) (''Content: '' @ c @ NL # ?z)"
        by (rule content_search_skip [OF m]) simp
      also have "\<dots> = Some c"
        by (rule content_search_label [OF z assms(2,3) h]) (simp add: is_word_def)
      finally show ?thesis using u by simp
    qed
  qed
  show ?thesis
    unfolding extract_content_def option.case Let_def s using assms(4) by simp
qed

text \<open>
  Claim C4, as amended. For every advice card whose content is a non-empty string
  without leading or trailing white space, without carriage return and without a
  newline followed by a section marker, whose title line (if any) does not contain
  \<open>Content:\<close>, and which has at least one non-empty section after the content (checklist
  items, symptoms, root cause or fix), the content extracted from the document of the
  card is the content of the card.
\<close>

theorem extract_content_build_document:
  assumes "advice_card_lists crd"
    and "map_of crd ''content'' = Some (PStr c)"
    and "c \<noteq> []" and "strip c = c" and "CR \<notin> set c" and "section_break_free c"
    and "list_all label_free (field_line rend crd ''title'' ''Title'')"
    and "later_lines rend crd \<noteq> []"
  shows "\<exists>d. build_document rend crd = Inr d \<and> extract_content (Some d) = c"
proof -
  from build_document_shape [OF assms(1,2,3,8)] obtain p z
    where d: "build_document rend crd = Inr (''passage: '' @ p @ ''Content: '' @ c @ NL # z)"
      and z: "starts_marker z"
      and p: "p = [] \<or> (\<exists>l. field_line rend crd ''title'' ''Title'' = [l] \<and> p = l @ [NL])"
    by blast
  from p assms(7) have "p = [] \<or> (\<exists>l. \<not> mentions_label l \<and> p = l @ [NL])"
    by (auto simp: label_free_def)
  from extract_content_shape [OF z assms(6,3,4,5) this] d show ?thesis by simp
qed

theorem extract_content_build_document_witness:
  "advice_card_lists example_card
   \<and> map_of example_card ''content'' = Some (PStr ''Hello'')
   \<and> strip ''Hello'' = ''Hello'' \<and> CR \<notin> set ''Hello'' \<and> section_break_free ''Hello''
   \<and> list_all label_free (field_line render0 example_card ''title'' ''Title'')
   \<and> later_lines render0 example_card \<noteq> []
   \<and> build_document render0 example_card
       = Inr (''passage: Title: T'' @ [NL] @ ''Content: Hello'' @ [NL] @ ''Fix:'' @ [NL] @ ''- do X'')
   \<and> extract_content (Some (''passage: Title: T'' @ [NL] @ ''Content: Hello'' @ [NL] @ ''Fix:'' @ [NL] @ ''- do X'')) = ''Hello''"
proof -
  have a: "advice_card_lists example_card"
    by (simp add: advice_card_lists_def list_field_def example_card_def)
  have c: "map_of example_card ''content'' = Some (PStr ''Hello'')"
    by (simp add: example_card_def)
  have s: "strip ''Hello'' = ''Hello''"
    by (simp add: strip_def lstrip_def rstrip_def is_space_def)
  have r: "CR \<notin> set ''Hello''" by simp
  have f: "section_break_free ''Hello''" by simp
  have t: "list_all label_free (field_line render0 example_card ''title'' ''Title'')"
    by (simp add: field_line_def example_card_def fmt_def label_free_def)
  have l: "later_lines render0 example_card \<noteq> []"
    by (simp add: later_lines_def list_lines_def example_card_def)
  have n: "''Hello'' \<noteq> []" by simp
  have d: "build_document render0 example_card
       = Inr (''passage: Title: T'' @ [NL] @ ''Content: Hello'' @ [NL] @ ''Fix:'' @ [NL] @ ''- do X'')"
    using build_document_lines [OF a, of render0]
    by (simp add: format_document_def document_lines_def field_line_def list_lines_def
        example_card_def fmt_def strip_def lstrip_def rstrip_def is_space_def)
  from extract_content_build_document [OF a c n s r f t l] d a c s r f t l
  show ?thesis by simp
qed

lemmas document_simps = build_document_def append_field_def extend_section_def py_or_def
  dict_get_def fmt_def bullet_def

lemmas extract_simps = extract_content_def unix_newlines_def match_here_def word_boundary_def is_word_def
  is_space_def strip_def lstrip_def rstrip_def starts_marker_def section_markers_def at_end_def
  replace_all.simps

text \<open>
  Claim C4 as stated fails. The extraction strips the white space around the content,
  stops at a newline followed by a section marker inside the content, starts at the
  first \<open>Content:\<close> of the document, which may be in the title, and turns carriage returns
  into newlines.
\<close>

theorem extract_content_roundtrip_counterexample:
  "build_document render0 padded_card
     = Inr (''passage: Content:  Hello'' @ [NL] @ ''Fix:'' @ [NL] @ ''- x'')
   \<and> extract_content (Some (''passage: Content:  Hello'' @ [NL] @ ''Fix:'' @ [NL] @ ''- x''))
     = ''Hello''
   \<and> build_document render0 broken_card
     = Inr (''passage: Content: a'' @ [NL] @ ''Fix: b'' @ [NL] @ ''Fix:'' @ [NL] @ ''- x'')
   \<and> extract_content
        (Some (''passage: Content: a'' @ [NL] @ ''Fix: b'' @ [NL] @ ''Fix:'' @ [NL] @ ''- x''))
     = ''a''
   \<and> build_document render0 labelled_card
     = Inr (''passage: Title: On Content: x'' @ [NL] @ ''Content: Hello'' @ [NL] @ ''Fix:''
            @ [NL] @ ''- y'')
   \<and> extract_content
        (Some (''passage: Title: On Content: x'' @ [NL] @ ''Content: Hello'' @ [NL] @ ''Fix:''
               @ [NL] @ ''- y''))
     = ''x'' @ [NL] @ ''Content: Hello''
   \<and> build_document render0 returned_card
     = Inr (''passage: Content: a'' @ [CR] @ ''b'' @ [NL] @ ''Fix:'' @ [NL] @ ''- x'')
   \<and> extract_content
        (Some (''passage: Content: a'' @ [CR] @ ''b'' @ [NL] @ ''Fix:'' @ [NL] @ ''- x''))
     = ''a'' @ [NL] @ ''b''"
  by (simp add: document_simps extract_simps padded_card_def broken_card_def
      labelled_card_def returned_card_def)

text \<open>
  The scenario of the specification: the content \<open>Hello\<close> is extracted from a document
  whose content is followed by the Fix section.
\<close>

lemma extract_content_scenario:
  "extract_content
     (Some (''passage: Title: T'' @ [NL] @ ''Content: Hello'' @ [NL] @ ''Fix:'' @ [NL] @ ''- do X''))
   = ''Hello''"
  by (simp add: extract_simps)

text \<open>
  A text without the marker: the first \<open>passage: \<close> is removed and the rest is stripped.
\<close>

lemma extract_content_fallback:
  "extract_content (Some ''passage: Title: T '') = ''Title: T''"
  by (simp add: extract_simps)

text \<open>
  The pattern never matches a text without a newline, whatever it contains: the final
  group asks for one.
\<close>

lemma lazy_content_single_line: "NL \<notin> set s \<Longrightarrow> lazy_content s = None"
  by (induction s) auto

lemma after_label_single_line: "NL \<notin> set s \<Longrightarrow> after_label s = None"
  by (induction s) (auto simp: lazy_content_single_line)

lemma content_search_single_line: "NL \<notin> set s \<Longrightarrow> content_search prev s = None"
proof (induction s arbitrary: prev)
  case Nil
  show ?case by (simp add: match_here_def)
next
  case (Cons c s)
  from Cons.prems have "NL \<notin> set (drop (length ''Content:'') (c # s))"
    by (metis in_set_dropD)
  from after_label_single_line [OF this] have "match_here prev (c # s) = None"
    unfolding match_here_def by (simp only: if_cancel)
  with Cons show ?case by simp
qed

text \<open>
  Claim C6, at the input where the code departs from it. The document stored for a card
  with a title and a content only ends with the content, without a newline. The pattern
  asks for a newline before the end of the text, so it does not match, and the
  extraction returns the whole document without its prefix instead of \<open>Hello\<close>.
\<close>

theorem extract_content_last_section:
  "build_document render0 plain_card = Inr (''passage: Title: T'' @ [NL] @ ''Content: Hello'')
   \<and> content_search None (''passage: Title: T'' @ [NL] @ ''Content: Hello'') = None
   \<and> extract_content (Some (''passage: Title: T'' @ [NL] @ ''Content: Hello''))
     = ''Title: T'' @ [NL] @ ''Content: Hello''"
  by (simp add: document_simps extract_simps plain_card_def)

section \<open>Properties of the query helper\<close>

subsection \<open>The metadata filter\<close>

lemma update_fresh: "k \<notin> fst ` set d \<Longrightarrow> AList.update k v d = d @ [(k, v)]"
  by (induction d) auto

lemma dict_merge_fresh:
  "distinct (map fst e) \<Longrightarrow> fst ` set e \<inter> fst ` set base = {}
     \<Longrightarrow> dict_merge base e = base @ e"
proof (induction e arbitrary: base)
  case Nil
  show ?case by (simp add: dict_merge_def)
next
  case (Cons kv e)
  from Cons.prems have f: "fst kv \<notin> fst ` set base" by auto
  from Cons.prems have "distinct (map fst e)"
    and "fst ` set e \<inter> fst ` set (base @ [(fst kv, snd kv)]) = {}"
    by auto
  from Cons.IH [OF this] have "dict_merge (base @ [kv]) e = (base @ [kv]) @ e" by simp
  with f show ?case by (simp add: dict_merge_def update_fresh)
qed

lemma map_of_dict_merge: "map_of (dict_merge base e) = map_of base ++ map_of (rev e)"
proof (induction e arbitrary: base)
  case Nil
  show ?case by (simp add: dict_merge_def)
next
  case (Cons kv e)
  have "dict_merge base (kv # e) = dict_merge (AList.update (fst kv) (snd kv) base) e"
    by (simp add: dict_merge_def)
  also have "map_of \<dots> = map_of (AList.update (fst kv) (snd kv) base) ++ map_of (rev e)"
    by (rule Cons.IH)
  also have "\<dots> = map_of base ++ map_of (rev (kv # e))"
    by (cases kv) (simp add: update_conv' map_add_assoc [symmetric])
  finally show ?case .
qed

lemma query_where_none:
  "\<not> given_step step \<Longrightarrow> \<not> given_extra where_extra \<Longrightarrow> query_where step where_extra = None"
  by (simp add: query_where_def)

lemma query_where_step_only:
  "s \<noteq> [] \<Longrightarrow> \<not> given_extra where_extra
     \<Longrightarrow> query_where (Some s) where_extra = Some [(''pipeline_step'', PStr s)]"
  by (simp add: query_where_def given_step_def)

lemma query_where_both:
  assumes "s \<noteq> []" and "e \<noteq> []" and "distinct (map fst e)" and "''pipeline_step'' \<notin> fst ` set e"
  shows "query_where (Some s) (Some e) = Some ((''pipeline_step'', PStr s) # e)"
proof -
  from assms(3,4) have "dict_merge [(''pipeline_step'', PStr s)] e = [(''pipeline_step'', PStr s)] @ e"
    by (intro dict_merge_fresh) auto
  with assms(1,2) show ?thesis
    by (simp add: query_where_def given_step_def given_extra_def)
qed

lemma query_where_extra_kept:
  assumes "s \<noteq> []" and "e \<noteq> []" and "distinct (map fst e)" and "map_of e k = Some v"
  shows "\<exists>w. query_where (Some s) (Some e) = Some w \<and> map_of w k = Some v"
proof -
  from assms(3) have "distinct (map fst (rev e))" by (simp add: rev_map [symmetric])
  with assms(4) have "map_of (rev e) k = Some v"
    by (metis map_of_eq_Some_iff assms(3) set_rev)
  with assms(1,2) show ?thesis
    by (simp add: query_where_def given_step_def given_extra_def map_of_dict_merge map_add_def)
qed

text \<open>
  Claim C1, as amended. The filter sent to the store is absent when neither a step nor
  extra constraints are given; it is the stage constraint alone when only a step is
  given; and when a step is given together with extra constraints on other fields, it
  is one flat map: the stage constraint followed by every extra constraint, unchanged.
  (A dictionary has distinct keys.)
\<close>

theorem query_where_filter:
  "(\<not> given_step step \<and> \<not> given_extra where_extra \<longrightarrow>
      where_filter (query_request q_emb step k where_extra incl) = None)
   \<and> (\<forall>s. step = Some s \<and> s \<noteq> [] \<and> \<not> given_extra where_extra \<longrightarrow>
      where_filter (query_request q_emb step k where_extra incl)
        = Some [(''pipeline_step'', PStr s)])
   \<and> (\<forall>s e. step = Some s \<and> s \<noteq> [] \<and> where_extra = Some e \<and> e \<noteq> []
          \<and> distinct (map fst e) \<and> ''pipeline_step'' \<notin> fst ` set e \<longrightarrow>
      where_filter (query_request q_emb step k where_extra incl)
        = Some ((''pipeline_step'', PStr s) # e)
      \<and> (\<forall>kv \<in> set e. map_of ((''pipeline_step'', PStr s) # e) (fst kv) = Some (snd kv)))"
proof (intro conjI allI impI)
  assume "\<not> given_step step \<and> \<not> given_extra where_extra"
  then show "where_filter (query_request q_emb step k where_extra incl) = None"
    by (simp add: query_request_def query_where_none)
next
  fix s
  assume "step = Some s \<and> s \<noteq> [] \<and> \<not> given_extra where_extra"
  then show "where_filter (query_request q_emb step k where_extra incl)
    = Some [(''pipeline_step'', PStr s)]"
    by (simp add: query_request_def query_where_step_only)
next
  fix s e
  assume a: "step = Some s \<and> s \<noteq> [] \<and> where_extra = Some e \<and> e \<noteq> []
    \<and> distinct (map fst e) \<and> ''pipeline_step'' \<notin> fst ` set e"
  then show "where_filter (query_request q_emb step k where_extra incl)
    = Some ((''pipeline_step'', PStr s) # e)"
    by (simp add: query_request_def query_where_both)
  from a show "\<forall>kv \<in> set e. map_of ((''pipeline_step'', PStr s) # e) (fst kv) = Some (snd kv)"
    by (auto simp: rev_image_eqI)
qed

theorem query_where_filter_witness:
  "where_filter (query_request (0::nat) None 6 None []) = None
   \<and> where_filter (query_request (0::nat) (Some ''Step1_Premise'') 6 None [])
       = Some [(''pipeline_step'', PStr ''Step1_Premise'')]
   \<and> where_filter (query_request (0::nat) (Some ''Step1_Premise'') 6
         (Some [(''category'', PStr ''premise''), (''type'', PStr ''checklist'')]) [])
       = Some [(''pipeline_step'', PStr ''Step1_Premise''), (''category'', PStr ''premise''),
               (''type'', PStr ''checklist'')]"
proof -
  have g: "\<not> given_step None" "\<not> given_extra None"
    by (simp_all add: given_step_def given_extra_def)
  from query_where_filter [of None None "0::nat" 6 "[]"] g
  have 1: "where_filter (query_request (0::nat) None 6 None []) = None" by simp
  from query_where_filter [of "Some ''Step1_Premise''" None "0::nat" 6 "[]"] g
  have 2: "where_filter (query_request (0::nat) (Some ''Step1_Premise'') 6 None [])
       = Some [(''pipeline_step'', PStr ''Step1_Premise'')]"
    by simp
  from query_where_filter [of "Some ''Step1_Premise''"
      "Some [(''category'', PStr ''premise''), (''type'', PStr ''checklist'')]" "0::nat" 6 "[]"]
  have 3: "where_filter (query_request (0::nat) (Some ''Step1_Premise'') 6
         (Some [(''category'', PStr ''premise''), (''type'', PStr ''checklist'')]) [])
       = Some [(''pipeline_step'', PStr ''Step1_Premise''), (''category'', PStr ''premise''),
               (''type'', PStr ''checklist'')]"
    by simp
  from 1 2 3 show ?thesis by simp
qed

text \<open>
  Claim C1 as stated fails. With a step and an extra constraint on the stage field
  itself, the value of the extra constraint replaces the step: the filter sent to the
  store does not hold the stage constraint that was asked for.
\<close>

theorem query_where_collision:
  "where_filter (query_request (0::nat) (Some ''Step1_Premise'') 6
      (Some [(''pipeline_step'', PStr ''Step2_Premise_Consistency'')]) [])
   = Some [(''pipeline_step'', PStr ''Step2_Premise_Consistency'')]"
  by (simp add: query_request_def query_where_def given_step_def given_extra_def dict_merge_def)

text \<open>
  Claim C10. When the step is \<^verbatim>\<open>None\<close> or the empty string and no extra filter is
  given, the request sent to the store has no filter; and an empty step gives the same
  filter as no step, whatever the extra filter is.
\<close>

theorem query_where_no_step:
  "where_filter (query_request q_emb None k None incl) = None
   \<and> where_filter (query_request q_emb (Some []) k None incl) = None
   \<and> where_filter (query_request q_emb None k (Some []) incl) = None
   \<and> where_filter (query_request q_emb (Some []) k (Some []) incl) = None
   \<and> query_where (Some []) where_extra = query_where None where_extra"
  by (simp add: query_request_def query_where_def given_step_def given_extra_def)

subsection \<open>The query embedding\<close>

text \<open>
  Claim C7. For every input (a string, the empty string or \<^verbatim>\<open>None\<close>) the text passed
  to the embedding model is \<open>query: \<close> followed by the input stripped of leading and
  trailing white space, and the embedding is row 0 of what the model returns for it.
\<close>

theorem embed_query_prefix:
  "embed_query_call q = ([''query: '' @ strip (case q of None \<Rightarrow> [] | Some s \<Rightarrow> s)], True)
   \<and> embed_query enc q
     = (case enc [''query: '' @ strip (case q of None \<Rightarrow> [] | Some s \<Rightarrow> s)] True of
          [] \<Rightarrow> Inl IndexError
        | v # vs \<Rightarrow> Inr v)"
  by (cases q) (simp_all add: embed_query_def embed_query_call_def e5_query_prefix_def)


subsection \<open>Shaping the raw result\<close>

lemma result_column_row:
  assumes "result_row res key dflt (length ids) = Some ys"
  shows "result_column res key dflt (PList ids) = Inr (PList ys)"
proof (cases "map_of res key")
  case None
  then have "key \<notin> fst ` set res" by (simp add: map_of_eq_None_iff)
  with assms None show ?thesis by (simp add: result_column_def result_row_def)
next
  case (Some v)
  then have "key \<in> fst ` set res" by (metis map_of_eq_None_iff option.distinct(1))
  with assms Some show ?thesis
    by (auto simp: result_column_def result_row_def dict_get_default_def
        split: pyval.splits list.splits)
qed

lemma shape_hit_at:
  assumes "i < length ids" and "length ds = length ids" and "list_all distance_entry ds"
    and "os = [] \<or> length os = length ids" and "ms = [] \<or> length ms = length ids"
  shows "shape_hit conv (PList ds) (PList os) (PList ms) i (ids ! i) = Inr (hit_at ids ds os ms i)"
proof -
  from assms(1,2,3) have "distance_entry (ds ! i)" by (simp add: list_all_length)
  with assms(1,2,4,5) show ?thesis
    by (cases "ds ! i")
      (auto simp: shape_hit_def hit_at_def distance_entry_def py_float_def)
qed

lemma shape_rows_at:
  assumes "length ds = length ids" and "list_all distance_entry ds"
    and "os = [] \<or> length os = length ids" and "ms = [] \<or> length ms = length ids"
  shows "i + length rows = length ids \<Longrightarrow> rows = drop i ids
    \<Longrightarrow> shape_rows conv (PList ds) (PList os) (PList ms) i rows hits
        = Inr (hits @ map (hit_at ids ds os ms) [i..<length ids])"
proof (induction rows arbitrary: i hits)
  case Nil
  then show ?case by simp
next
  case (Cons r rows)
  from Cons.prems(1) have i: "i < length ids" by simp
  with Cons.prems have r: "r = ids ! i" and rows: "rows = drop (Suc i) ids"
    by (simp_all add: Cons_nth_drop_Suc [symmetric])
  from Cons.prems(1) have "Suc i + length rows = length ids" by simp
  from Cons.IH [OF this rows]
  have "shape_rows conv (PList ds) (PList os) (PList ms) (Suc i) rows (hits @ [hit_at ids ds os ms i])
    = Inr ((hits @ [hit_at ids ds os ms i]) @ map (hit_at ids ds os ms) [Suc i..<length ids])" .
  with shape_hit_at [OF i assms, of conv] r i show ?case
    by (simp add: upt_conv_Cons)
qed

text \<open>
  When the identifiers are a list and each of the three other rows is left out of the
  raw result as a missing key, or is a list parallel to the identifiers (documents and
  metadatas may also be empty), the distances being floats or \<^verbatim>\<open>None\<close>, the shaping
  raises nothing and gives exactly one hit per identifier, in order: a missing or null
  distance gives not-a-number, missing documents give \<^verbatim>\<open>None\<close>, missing metadatas give
  the empty dictionary.
\<close>

lemma shape_hits_rows:
  assumes "result_row res ''ids'' PNone 0 = Some ids"
    and "result_row res ''distances'' PNone (length ids) = Some ds"
    and "result_row res ''documents'' PNone (length ids) = Some os"
    and "result_row res ''metadatas'' (PDict []) (length ids) = Some ms"
    and "length ds = length ids" and "list_all distance_entry ds"
    and "os = [] \<or> length os = length ids" and "ms = [] \<or> length ms = length ids"
  shows "shape_hits conv res = Inr (map (hit_at ids ds os ms) [0..<length ids])"
proof -
  from assms(1) have i: "subscript (dict_get_default res ''ids'' (PList [PList []])) 0 = Inr (PList ids)"
    by (auto simp: result_row_def dict_get_default_def split: option.splits pyval.splits list.splits)
  have "shape_rows conv (PList ds) (PList os) (PList ms) 0 ids []
    = Inr ([] @ map (hit_at ids ds os ms) [0..<length ids])"
    by (rule shape_rows_at [OF assms(5-8)]) simp_all
  then show ?thesis
    by (simp add: shape_hits_def i result_column_row [OF assms(2)]
        result_column_row [OF assms(3)] result_column_row [OF assms(4)])
qed

lemma shape_hits_rows_partial:
  "result_row raw_partial ''ids'' PNone 0 = Some [PStr ''c1'', PStr ''c2'']
   \<and> result_row raw_partial ''distances'' PNone 2 = Some [PFloat (Fin (1 / 10)), PNone]
   \<and> result_row raw_partial ''documents'' PNone 2 = Some [PNone, PNone]
   \<and> result_row raw_partial ''metadatas'' (PDict []) 2
       = Some [PDict [(''category'', PStr ''premise'')], PDict []]
   \<and> shape_hits strict_float raw_partial
       = Inr [\<lparr>hit_id = PStr ''c1'', distance = Fin (1 / 10), document = PNone,
                metadata = PDict [(''category'', PStr ''premise'')]\<rparr>,
              \<lparr>hit_id = PStr ''c2'', distance = NaN, document = PNone, metadata = PDict []\<rparr>]"
proof -
  have i: "result_row raw_partial ''ids'' PNone 0 = Some [PStr ''c1'', PStr ''c2'']"
    and d: "result_row raw_partial ''distances'' PNone (length [PStr ''c1'', PStr ''c2''])
      = Some [PFloat (Fin (1 / 10)), PNone]"
    and o: "result_row raw_partial ''documents'' PNone (length [PStr ''c1'', PStr ''c2''])
      = Some [PNone, PNone]"
    and m: "result_row raw_partial ''metadatas'' (PDict []) (length [PStr ''c1'', PStr ''c2''])
      = Some [PDict [(''category'', PStr ''premise'')], PDict []]"
    by (simp_all add: result_row_def raw_partial_def numeral_2_eq_2)
  have l: "length [PFloat (Fin (1 / 10)), PNone] = length [PStr ''c1'', PStr ''c2'']"
    and e: "list_all distance_entry [PFloat (Fin (1 / 10)), PNone]"
    and p: "[PNone, PNone] = [] \<or> length [PNone, PNone] = length [PStr ''c1'', PStr ''c2'']"
    and q: "[PDict [(''category'', PStr ''premise'')], PDict []] = []
      \<or> length [PDict [(''category'', PStr ''premise'')], PDict []]
        = length [PStr ''c1'', PStr ''c2'']"
    by (simp_all add: distance_entry_def)
  from shape_hits_rows [OF i d o m l e p q, of strict_float] i d o m
  show ?thesis
    by (simp add: hit_at_def upt_rec numeral_2_eq_2)
qed

lemma shape_hits_ids_only:
  "shape_hits conv raw_ids_only
   = Inr [\<lparr>hit_id = PStr ''c1'', distance = NaN, document = PNone, metadata = PDict []\<rparr>,
          \<lparr>hit_id = PStr ''c2'', distance = NaN, document = PNone, metadata = PDict []\<rparr>]"
  by (simp add: shape_hits_def raw_ids_only_def result_column_def dict_get_default_def
      shape_hit_def numeral_2_eq_2)

text \<open>
  Claim C5, at the input where the code departs from it. The store returns every key and
  puts \<^verbatim>\<open>None\<close> under a field that was left out of \<^verbatim>\<open>include\<close>. For such a raw result
  the test \<^verbatim>\<open>"documents" in res\<close> succeeds, \<^verbatim>\<open>res.get("documents", [[]])[0]\<close> is
  \<^verbatim>\<open>None[0]\<close> and raises: no hit is produced, where the claim asks for a hit with an
  absent document. The same result with the key left out gives that hit, so the default
  meant for a missing array is there and is not reached.
\<close>

theorem shape_hits_null_column:
  "shape_hits conv raw_without_documents = Inl TypeError
   \<and> shape_hits conv raw_absent_documents
     = Inr [\<lparr>hit_id = PStr ''c1'', distance = Fin (1 / 10), document = PNone,
              metadata = PDict [(''category'', PStr ''premise'')]\<rparr>]"
  by (simp add: shape_hits_def raw_without_documents_def raw_absent_documents_def
      result_column_def dict_get_default_def shape_hit_def py_float_def)

section \<open>Properties of the ingestion loop\<close>

lemma ingest_line_ids:
  assumes "ingest_line loads rend e5_embed n line st = Inr st'"
  shows "stored_ids (added st') \<union> set (pending_ids st')
    \<subseteq> stored_ids (added st) \<union> set (pending_ids st) \<union> {i. line_id loads line = Some i}"
  using assms
  by (auto simp: ingest_line_def item_def line_id_def flush_def stored_ids_def Let_def
      split: option.splits sum.splits pyval.splits if_splits)

lemma ingest_loop_ids:
  "(case ingest_loop loads rend e5_embed n lines st of
      Inl (e, bs) \<Rightarrow> stored_ids bs
    | Inr st' \<Rightarrow> stored_ids (added st') \<union> set (pending_ids st'))
   \<subseteq> stored_ids (added st) \<union> set (pending_ids st) \<union> {i. \<exists>l \<in> set lines. line_id loads l = Some i}"
proof (induction lines arbitrary: st)
  case Nil
  show ?case by simp
next
  case (Cons line lines)
  show ?case
  proof (cases "ingest_line loads rend e5_embed n line st")
    case (Inl e)
    then show ?thesis by auto
  next
    case (Inr st')
    from Cons.IH [of st'] ingest_line_ids [OF Inr] Inr show ?thesis
      by (auto split: sum.splits prod.splits)
  qed
qed

lemma ingest_loop_append:
  "ingest_loop loads rend e5_embed n (pre @ rest) st =
     (case ingest_loop loads rend e5_embed n pre st of
        Inl err \<Rightarrow> Inl err
      | Inr st' \<Rightarrow> ingest_loop loads rend e5_embed n rest st')"
  by (induction pre arbitrary: st) (auto split: sum.splits)

lemma ingest_loop_unparsable:
  assumes "loads bad = None"
  shows "ingest_loop loads rend e5_embed n (bad # post) st = Inl (JSONDecodeError, added st)"
  using assms by (simp add: ingest_line_def)

lemma ingest_line_accepted:
  assumes "accepted loads rend line"
  shows "\<exists>st'. ingest_line loads rend e5_embed n line st = Inr st'"
  using assms
  by (auto simp: accepted_def ingest_line_def item_def Let_def
      split: option.splits pyval.splits sum.splits)

lemma ingest_loop_accepted:
  assumes "\<forall>l \<in> set lines. accepted loads rend l"
  shows "\<exists>st'. ingest_loop loads rend e5_embed n lines st = Inr st'"
  using assms
proof (induction lines arbitrary: st)
  case Nil
  show ?case by simp
next
  case (Cons line lines)
  from Cons.prems have "accepted loads rend line" by simp
  from ingest_line_accepted [OF this] obtain st'
    where "ingest_line loads rend e5_embed n line st = Inr st'" by blast
  with Cons.IH [of st'] Cons.prems show ?case by simp
qed

text \<open>
  Claim C8. The run is stated for every batch size \<open>n\<close>; the module runs with
  \<open>n = batch_size\<close>, that is \<open>ingest\<close>. When a line cannot be parsed, the run on the file
  ends with an error and never reaches the lines after it: it ends as the run on the
  lines before it does when one of them already raises, and otherwise with the parse
  error and the store as it was when the line was read. If every line before it is
  accepted the error is the parse error, so the line is neither skipped nor replaced.
  Every identifier in the store then comes from a line before the unparsable one.
\<close>

theorem ingest_aborts:
  assumes "loads bad = None"
  shows "ingest_with n loads rend e5_embed (pre @ bad # post) =
     (case ingest_loop loads rend e5_embed n pre ingest_start of
        Inl err \<Rightarrow> Inl err
      | Inr st \<Rightarrow> Inl (JSONDecodeError, added st))
    \<and> (\<exists>e bs. ingest_with n loads rend e5_embed (pre @ bad # post) = Inl (e, bs)
          \<and> ((\<forall>l \<in> set pre. accepted loads rend l) \<longrightarrow> e = JSONDecodeError)
          \<and> (\<forall>i \<in> stored_ids bs. \<exists>l \<in> set pre. line_id loads l = Some i))"
proof -
  let ?pre = "ingest_loop loads rend e5_embed n pre ingest_start"
  have step: "ingest_loop loads rend e5_embed n (bad # post) st
      = Inl (JSONDecodeError, added st)" for st
    using assms by (rule ingest_loop_unparsable)
  have "ingest_loop loads rend e5_embed n (pre @ bad # post) ingest_start =
     (case ?pre of Inl err \<Rightarrow> Inl err | Inr st \<Rightarrow> Inl (JSONDecodeError, added st))"
    unfolding ingest_loop_append step ..
  then have eq: "ingest_with n loads rend e5_embed (pre @ bad # post) =
     (case ?pre of Inl err \<Rightarrow> Inl err | Inr st \<Rightarrow> Inl (JSONDecodeError, added st))"
    by (simp add: ingest_with_def split: sum.splits)
  have sub: "(case ?pre of Inl (e, bs) \<Rightarrow> stored_ids bs
      | Inr st' \<Rightarrow> stored_ids (added st') \<union> set (pending_ids st'))
    \<subseteq> {i. \<exists>l \<in> set pre. line_id loads l = Some i}"
    using ingest_loop_ids [of loads rend e5_embed n pre ingest_start]
    by (simp add: ingest_start_def stored_ids_def)
  show ?thesis
  proof (cases ?pre)
    case (Inl err)
    then have "\<not> (\<forall>l \<in> set pre. accepted loads rend l)"
      using ingest_loop_accepted [of pre loads rend e5_embed n ingest_start] by auto
    with Inl eq sub show ?thesis by (cases err) auto
  next
    case (Inr st)
    with eq sub show ?thesis by auto
  qed
qed

text \<open>
  With a batch size of two, the batch completed before the unparsable line stays in the
  store, and the third line, read before it but not yet sent, is lost with the run. With
  the batch size of the module nothing has been sent yet.
\<close>

theorem ingest_aborts_witness:
  "toy_loads ''oops'' = None
   \<and> accepted toy_loads render0 ''a'' \<and> accepted toy_loads render0 ''b''
   \<and> line_id toy_loads ''a'' = Some (PStr ''a'') \<and> line_id toy_loads ''b'' = Some (PStr ''b'')
   \<and> ingest_with 2 toy_loads render0 toy_embed ([''a'', ''b'', ''a''] @ ''oops'' # [''b''])
       = Inl (JSONDecodeError,
              [\<lparr>batch_ids = [PStr ''a'', PStr ''b''],
                batch_documents = [''passage: Content: A'', ''passage: ''],
                batch_metadatas = [empty_metadata, empty_metadata],
                batch_embeddings = [19, 9]\<rparr>])
   \<and> ingest toy_loads render0 toy_embed ([''a'', ''b'', ''a''] @ ''oops'' # [''b''])
       = Inl (JSONDecodeError, [])"
proof -
  have h: "toy_loads ''oops'' = None" by (simp add: toy_loads_def)
  have a: "accepted toy_loads render0 ''a''" "accepted toy_loads render0 ''b''"
    by (simp_all add: accepted_def toy_loads_def document_simps build_metadata_def attr_get_def)
  have i: "line_id toy_loads ''a'' = Some (PStr ''a'')" "line_id toy_loads ''b'' = Some (PStr ''b'')"
    by (simp_all add: line_id_def toy_loads_def)
  have p: "ingest_loop toy_loads render0 toy_embed 2 [''a'', ''b'', ''a''] ingest_start
    = Inr \<lparr>pending_ids = [PStr ''a''], pending_docs = [''passage: Content: A''],
           pending_metas = [empty_metadata],
           added = [\<lparr>batch_ids = [PStr ''a'', PStr ''b''],
                     batch_documents = [''passage: Content: A'', ''passage: ''],
                     batch_metadatas = [empty_metadata, empty_metadata],
                     batch_embeddings = [19, 9]\<rparr>]\<rparr>"
    by (simp add: ingest_line_def toy_loads_def item_def document_simps build_metadata_def
        attr_get_def dict_get_default_def ingest_start_def flush_def empty_metadata_def
        strip_def lstrip_def rstrip_def is_space_def toy_embed_def)
  have q: "ingest_loop toy_loads render0 toy_embed batch_size [''a'', ''b'', ''a''] ingest_start
    = Inr \<lparr>pending_ids = [PStr ''a'', PStr ''b'', PStr ''a''],
           pending_docs = [''passage: Content: A'', ''passage: '', ''passage: Content: A''],
           pending_metas = [empty_metadata, empty_metadata, empty_metadata], added = []\<rparr>"
    by (simp add: ingest_line_def toy_loads_def item_def document_simps build_metadata_def
        attr_get_def dict_get_default_def ingest_start_def batch_size_def empty_metadata_def
        strip_def lstrip_def rstrip_def is_space_def)
  from ingest_aborts [of toy_loads "''oops''" 2 render0 toy_embed "[''a'', ''b'', ''a'']" "[''b'']",
      OF h] p
  have 1: "ingest_with 2 toy_loads render0 toy_embed ([''a'', ''b'', ''a''] @ ''oops'' # [''b''])
       = Inl (JSONDecodeError,
              [\<lparr>batch_ids = [PStr ''a'', PStr ''b''],
                batch_documents = [''passage: Content: A'', ''passage: ''],
                batch_metadatas = [empty_metadata, empty_metadata],
                batch_embeddings = [19, 9]\<rparr>])"
    by simp
  from ingest_aborts [of toy_loads "''oops''" batch_size render0 toy_embed
      "[''a'', ''b'', ''a'']" "[''b'']", OF h] q
  have 2: "ingest toy_loads render0 toy_embed ([''a'', ''b'', ''a''] @ ''oops'' # [''b''])
       = Inl (JSONDecodeError, [])"
    by (simp add: ingest_def)
  from h a i 1 2 show ?thesis by simp
qed

section \<open>Properties of the interactive query\<close>

lemma step_tag_default: "step_tag 1 = Inr ''Step1_Premise''"
  by (simp add: step_tag_def STEP_MAP_def)

lemma step_map_range: "map_of STEP_MAP n = None \<longleftrightarrow> n < 1 \<or> 6 < n"
proof -
  have "n < 1 \<or> 6 < n \<or> n = 1 \<or> n = 2 \<or> n = 3 \<or> n = 4 \<or> n = 5 \<or> n = 6" by arith
  then show ?thesis by (auto simp: STEP_MAP_def)
qed

lemma parse_step_blank:
  "strip s = [] \<Longrightarrow> parse_step to_int (Some s) = Inr ''Step1_Premise''"
  by (simp add: parse_step_def step_tag_default)

lemma parse_step_format:
  "strip s \<noteq> [] \<Longrightarrow> to_int (strip s) = None
     \<Longrightarrow> parse_step to_int (Some s) = Inl (ValueError ''Pipeline step must be an integer 1~6.'')"
  by (simp add: parse_step_def)

lemma parse_step_range:
  "strip s \<noteq> [] \<Longrightarrow> to_int (strip s) = Some n \<Longrightarrow> n < 1 \<or> 6 < n
     \<Longrightarrow> parse_step to_int (Some s) = Inl (ValueError ''Pipeline step must be in 1~6.'')"
  by (simp add: parse_step_def step_map_range)

lemma parse_step_cases:
  "(\<exists>step. parse_step to_int x = Inr step) \<or> (\<exists>m. parse_step to_int x = Inl (ValueError m))"
proof -
  define s where "s = strip (case x of None \<Rightarrow> [] | Some t \<Rightarrow> t)"
  consider "s = []" | "s \<noteq> []" "to_int s = None"
    | n where "s \<noteq> []" "to_int s = Some n" "map_of STEP_MAP n = None"
    | n t where "s \<noteq> []" "to_int s = Some n" "map_of STEP_MAP n = Some t"
    by (cases "to_int s"; cases "map_of STEP_MAP (the (to_int s))") auto
  then show ?thesis
  proof cases
    case 1
    then show ?thesis by (simp add: parse_step_def s_def [symmetric] step_tag_default)
  next
    case 2
    then show ?thesis by (simp add: parse_step_def s_def [symmetric])
  next
    case 3
    then show ?thesis by (simp add: parse_step_def s_def [symmetric])
  next
    case 4
    then show ?thesis by (simp add: parse_step_def s_def [symmetric] step_tag_def)
  qed
qed

lemma choose_step_total: "\<exists>step out. choose_step to_int step_raw = Inr (step, out)"
  using parse_step_cases [of to_int "Some step_raw"]
  by (auto simp: choose_step_def step_tag_default)

lemma prompt_round_total:
  "\<exists>r. prompt_round to_int (l1 # l2 # l3 # rest) = Inr r"
proof -
  obtain step_raw out1 rest1 where r: "read_step_raw (l1 # l2 # l3 # rest) = Inr (step_raw, out1, rest1)"
    and n: "rest1 \<noteq> []"
    by (cases "lower (strip l1) \<in> set [''help'', ''h'', ''?'']")
      (auto simp: read_step_raw_def read_input_def Let_def)
  from choose_step_total obtain step out2 where c: "choose_step to_int step_raw = Inr (step, out2)"
    by blast
  from n obtain l rest2 where i: "read_input rest1 = Inr (l, rest2)"
    by (cases rest1) (auto simp: read_input_def)
  from r c i show ?thesis
    by (simp add: prompt_round_def split: prod.splits)
qed

text \<open>
  Claim C9. A blank step gives the default step \<open>Step1_Premise\<close>; a step that is not
  blank and not an integer raises the format error, an integer outside 1 to 6 raises the
  range error, and in both cases the loop goes on with the default step and prints a
  warning; a blank or non-integer result count gives the default 6; and a turn of the
  loop that has its three lines of input ends without an error.
\<close>

theorem interactive_defaults:
  "(strip s = [] \<longrightarrow> parse_step to_int (Some s) = Inr ''Step1_Premise'')
   \<and> (strip s \<noteq> [] \<and> to_int (strip s) = None \<longrightarrow>
        parse_step to_int (Some s) = Inl (ValueError ''Pipeline step must be an integer 1~6.'')
        \<and> choose_step to_int s
          = Inr (''Step1_Premise'', [StepInputError ''Pipeline step must be an integer 1~6.'']))
   \<and> (\<forall>n. strip s \<noteq> [] \<and> to_int (strip s) = Some n \<and> (n < 1 \<or> 6 < n) \<longrightarrow>
        parse_step to_int (Some s) = Inl (ValueError ''Pipeline step must be in 1~6.'')
        \<and> choose_step to_int s
          = Inr (''Step1_Premise'', [StepInputError ''Pipeline step must be in 1~6.'']))
   \<and> (k_str = [] \<or> to_int k_str = None \<longrightarrow> fst (choose_k to_int k_str) = 6)
   \<and> (\<exists>r. prompt_round to_int (l1 # l2 # l3 # rest) = Inr r)"
  using prompt_round_total [of to_int l1 l2 l3 rest]
  by (auto simp: parse_step_blank parse_step_format parse_step_range choose_step_def
      step_tag_default choose_k_def default_k_def)

theorem interactive_defaults_witness:
  "parse_step py_int (Some ''  '') = Inr ''Step1_Premise''
   \<and> choose_step py_int ''six''
     = Inr (''Step1_Premise'', [StepInputError ''Pipeline step must be an integer 1~6.''])
   \<and> choose_step py_int ''7''
     = Inr (''Step1_Premise'', [StepInputError ''Pipeline step must be in 1~6.''])
   \<and> fst (choose_k py_int []) = 6 \<and> fst (choose_k py_int ''many'') = 6"
proof -
  have b: "strip ''  '' = []" and s: "strip ''six'' = ''six''" and e: "strip ''7'' = ''7''"
    and m: "strip ''many'' = ''many''"
    by (simp_all add: strip_def lstrip_def rstrip_def is_space_def)
  have i: "py_int ''six'' = None" and j: "py_int ''7'' = Some 7" and k: "py_int ''many'' = None"
    by (simp_all add: py_int_def unsigned_def is_digit_def digit_value_def s e m)
  from interactive_defaults [of "''  ''" py_int "[]" "[]" "[]" "[]" "[]"] b
  have 1: "parse_step py_int (Some ''  '') = Inr ''Step1_Premise''" by simp
  from interactive_defaults [of "''six''" py_int "[]" "[]" "[]" "[]" "[]"] s i
  have 2: "choose_step py_int ''six''
     = Inr (''Step1_Premise'', [StepInputError ''Pipeline step must be an integer 1~6.''])"
    by simp
  from interactive_defaults [of "''7''" py_int "[]" "[]" "[]" "[]" "[]"] e j
  have 3: "choose_step py_int ''7''
     = Inr (''Step1_Premise'', [StepInputError ''Pipeline step must be in 1~6.''])"
    by simp
  from interactive_defaults [of "[]" py_int "[]" "[]" "[]" "[]" "[]"]
  have 4: "fst (choose_k py_int []) = 6" by simp
  from interactive_defaults [of "[]" py_int "''many''" "[]" "[]" "[]" "[]"] k
  have 5: "fst (choose_k py_int ''many'') = 6" by simp
  from 1 2 3 4 5 show ?thesis by simp
qed


end
